theory Spec2Isabelle
  imports Main "HOL-Library.Word"
begin

section \<open>Descriptor elements\<close>

text \<open>
  Source: \<^verbatim>\<open>smqtk_descriptors/interfaces/descriptor_element.py\<close>.

  Python objects whose structure the code never inspects (the type label, the uuid, the
  values of a configuration dictionary) are values of one type \<open>'v\<close>; equality on \<open>'v\<close>
  stands for Python's key equality (\<open>hash\<close> and \<open>==\<close>), which is what a \<open>dict\<close> uses.
  The concrete class of an element (\<open>type(descriptor_)\<close>) is a value of \<open>'c\<close>.
  A vector is a one-dimensional array, a list over an element type \<open>'a\<close>;
  \<open>None\<close> is the absent vector.

  \<open>DescriptorElement\<close> is abstract: \<open>vector()\<close> is implemented by the subclasses.
  The field \<open>vector\<close> below is what that call returns.
\<close>

record ('c, 'v, 'a) descriptor_element =
  cls :: 'c
  priv_type_label :: 'v
  priv_uuid :: 'v
  vector :: "'a list option"

definition uuid :: "('c, 'v, 'a) descriptor_element \<Rightarrow> 'v" where
  "uuid self = priv_uuid self"

definition type_label :: "('c, 'v, 'a) descriptor_element \<Rightarrow> 'v" where
  "type_label self = priv_type_label self"

text \<open>
  The exceptions the modelled code can raise: a missing dictionary key, a list index
  out of range, and a fault of a backend (an exception object), which the code lets
  through.
\<close>

datatype 'v py_error = KeyError | IndexError | Fault 'v

section \<open>Batched vector retrieval\<close>

text \<open>
  \<open>batch_dictionary\<close> is a \<open>defaultdict(list)\<close> keyed by the class: an association
  list in insertion order. \<open>batch_dictionary[c].append(d)\<close> appends to the list of an
  existing key and adds a new key, with the list \<open>[d]\<close>, at the end.
\<close>

fun batch_append :: "'c \<Rightarrow> 'd \<Rightarrow> ('c \<times> 'd list) list \<Rightarrow> ('c \<times> 'd list) list" where
  "batch_append c d [] = [(c, [d])]"
| "batch_append c d ((c', ds) # rest) =
     (if c' = c then (c', ds @ [d]) # rest else (c', ds) # batch_append c d rest)"

record ('c, 'v, 'a) gmv_state =
  batch_dictionary :: "('c \<times> ('c, 'v, 'a) descriptor_element list) list"
  uuid_indices :: "'v \<rightharpoonup> int"
  index :: int

definition gmv_init :: "('c, 'v, 'a) gmv_state" where
  "gmv_init = \<lparr>batch_dictionary = [], uuid_indices = Map.empty, index = - 1\<rparr>"

text \<open>The first loop, over \<open>enumerate(descriptors)\<close>.\<close>

fun group_loop ::
  "('c, 'v, 'a) gmv_state \<Rightarrow> (nat \<times> ('c, 'v, 'a) descriptor_element) list \<Rightarrow> ('c, 'v, 'a) gmv_state"
where
  "group_loop s [] = s"
| "group_loop s ((i, descriptor) # rest) =
     group_loop
       \<lparr>batch_dictionary = batch_append (cls descriptor) descriptor (batch_dictionary s),
        uuid_indices = (uuid_indices s)(uuid descriptor \<mapsto> int i),
        index = int i\<rparr>
       rest"

text \<open>
  \<open>xs[i] = v\<close> on a Python list: a negative index counts from the end, an index out of
  range raises \<open>IndexError\<close>.
\<close>

definition py_setitem :: "'x list \<Rightarrow> int \<Rightarrow> 'x \<Rightarrow> 'v py_error + 'x list" where
  "py_setitem xs i v =
     (let n = int (length xs); j = (if i < 0 then i + n else i)
      in if 0 \<le> j \<and> j < n then Inr (xs[nat j := v]) else Inl IndexError)"

text \<open>
  What one call of \<open>_cls._get_many_vectors(descriptor_batch)\<close> does: the generator
  yields finitely many \<open>(uuid, vector)\<close> pairs, in an order of its own, and then either
  ends or raises a fault of the backend. The batch fetch of every class is a parameter
  \<open>fetch\<close> of the model, a function of the class and of its batch.
\<close>

record ('v, 'a) fetch_result =
  yielded :: "('v \<times> 'a list option) list"
  raised :: "'v option"

text \<open>
  The inner loop: \<open>ordered_vectors[uuid_indices[uuid]] = vector\<close> for every pair
  yielded. \<open>uuid_indices\<close> is a plain \<open>dict\<close>, so a key it does not hold raises
  \<open>KeyError\<close>.
\<close>

fun write_pairs ::
  "('v \<rightharpoonup> int) \<Rightarrow> 'a list option list \<Rightarrow> ('v \<times> 'a list option) list
   \<Rightarrow> 'v py_error + 'a list option list"
where
  "write_pairs idx ordered_vectors [] = Inr ordered_vectors"
| "write_pairs idx ordered_vectors ((u, vec) # rest) =
     (case idx u of
        None \<Rightarrow> Inl KeyError
      | Some i \<Rightarrow>
          (case py_setitem ordered_vectors i vec of
             Inl e \<Rightarrow> Inl e
           | Inr ordered_vectors' \<Rightarrow> write_pairs idx ordered_vectors' rest))"

definition consume_fetch ::
  "('v \<rightharpoonup> int) \<Rightarrow> 'a list option list \<Rightarrow> ('v, 'a) fetch_result
   \<Rightarrow> 'v py_error + 'a list option list"
where
  "consume_fetch idx ordered_vectors r =
     (case write_pairs idx ordered_vectors (yielded r) of
        Inl e \<Rightarrow> Inl e
      | Inr ordered_vectors' \<Rightarrow>
          (case raised r of
             None \<Rightarrow> Inr ordered_vectors'
           | Some e \<Rightarrow> Inl (Fault e)))"

text \<open>The outer loop, over \<open>batch_dictionary.items()\<close> in insertion order.\<close>

fun fetch_loop ::
  "('c \<Rightarrow> ('c, 'v, 'a) descriptor_element list \<Rightarrow> ('v, 'a) fetch_result)
   \<Rightarrow> ('v \<rightharpoonup> int) \<Rightarrow> 'a list option list
   \<Rightarrow> ('c \<times> ('c, 'v, 'a) descriptor_element list) list
   \<Rightarrow> 'v py_error + 'a list option list"
where
  "fetch_loop fetch idx ordered_vectors [] = Inr ordered_vectors"
| "fetch_loop fetch idx ordered_vectors ((c, descriptor_batch) # rest) =
     (case consume_fetch idx ordered_vectors (fetch c descriptor_batch) of
        Inl e \<Rightarrow> Inl e
      | Inr ordered_vectors' \<Rightarrow> fetch_loop fetch idx ordered_vectors' rest)"

definition get_many_vectors ::
  "('c \<Rightarrow> ('c, 'v, 'a) descriptor_element list \<Rightarrow> ('v, 'a) fetch_result)
   \<Rightarrow> ('c, 'v, 'a) descriptor_element list \<Rightarrow> 'v py_error + 'a list option list"
where
  "get_many_vectors fetch descriptors =
     (let s = group_loop gmv_init (enumerate 0 descriptors);
          ordered_vectors = replicate (nat (index s + 1)) None
      in fetch_loop fetch (uuid_indices s) ordered_vectors (batch_dictionary s))"


text \<open>
  The batch of a class, as the first loop builds it: the elements of the class, in the
  order of the input.
\<close>

definition batch_of ::
  "('c, 'v, 'a) descriptor_element list \<Rightarrow> 'c \<Rightarrow> ('c, 'v, 'a) descriptor_element list"
where
  "batch_of descriptors c = filter (\<lambda>d. cls d = c) descriptors"

text \<open>
  The pairs the second loop receives, in the order it receives them, when no fetch
  raises: the output of every class's fetch, class after class.
\<close>

definition fetched_pairs ::
  "('c \<Rightarrow> ('c, 'v, 'a) descriptor_element list \<Rightarrow> ('v, 'a) fetch_result)
   \<Rightarrow> ('c \<times> ('c, 'v, 'a) descriptor_element list) list \<Rightarrow> ('v \<times> 'a list option) list"
where
  "fetched_pairs fetch batches = concat (map (\<lambda>(c, b). yielded (fetch c b)) batches)"

text \<open>
  The value of slot \<open>p\<close> after the writes of a list of pairs: the vector of the last
  pair whose uuid is mapped to \<open>p\<close>, or what the slot held before.
\<close>

fun last_write :: "('v \<rightharpoonup> int) \<Rightarrow> nat \<Rightarrow> ('v \<times> 'x) list \<Rightarrow> 'x \<Rightarrow> 'x" where
  "last_write idx p [] x = x"
| "last_write idx p ((u, vec) # rest) x =
     last_write idx p rest (if idx u = Some (int p) then vec else x)"

definition in_range :: "('v \<rightharpoonup> int) \<Rightarrow> nat \<Rightarrow> bool" where
  "in_range idx n = (\<forall>u i. idx u = Some i \<longrightarrow> 0 \<le> i \<and> i < int n)"

section \<open>Equality, hash and structural serialization\<close>

text \<open>
  \<open>numpy.array_equal(a1, a2)\<close> belongs to numpy, not to this repository. Its documented
  behaviour: both arguments are converted with \<open>asarray\<close>; the result is \<open>False\<close> when
  the shapes differ, and otherwise whether \<open>a1 == a2\<close> holds at every position.
  \<open>asarray(None)\<close> is an array of no dimension (shape \<open>()\<close>) holding \<open>None\<close>; a vector
  of \<open>n\<close> numbers has shape \<open>(n,)\<close>. The comparison \<open>==\<close> of two numbers is the parameter
  \<open>eq\<close> (for floating point numbers it is not reflexive: a NaN differs from itself).
\<close>

datatype 'a ndarray = Array_of_None | Array1 "'a list"

definition asarray :: "'a list option \<Rightarrow> 'a ndarray" where
  "asarray x = (case x of None \<Rightarrow> Array_of_None | Some xs \<Rightarrow> Array1 xs)"

definition shape :: "'a ndarray \<Rightarrow> nat list" where
  "shape a = (case a of Array_of_None \<Rightarrow> [] | Array1 xs \<Rightarrow> [length xs])"

text \<open>\<open>a1 == a2\<close> on arrays, position by position; an array of no dimension is broadcast.\<close>

fun array_eq :: "('a \<Rightarrow> 'a \<Rightarrow> bool) \<Rightarrow> 'a ndarray \<Rightarrow> 'a ndarray \<Rightarrow> bool list" where
  "array_eq eq Array_of_None Array_of_None = [True]"
| "array_eq eq Array_of_None (Array1 ys) = map (\<lambda>y. False) ys"
| "array_eq eq (Array1 xs) Array_of_None = map (\<lambda>x. False) xs"
| "array_eq eq (Array1 xs) (Array1 ys) = map (\<lambda>(x, y). eq x y) (zip xs ys)"

definition array_equal :: "('a \<Rightarrow> 'a \<Rightarrow> bool) \<Rightarrow> 'a list option \<Rightarrow> 'a list option \<Rightarrow> bool" where
  "array_equal eq a1 a2 =
     (let a1' = asarray a1; a2' = asarray a2
      in if shape a1' \<noteq> shape a2' then False else list_all (\<lambda>b. b) (array_eq eq a1' a2'))"

text \<open>
  The right operand of \<open>==\<close> is any Python value: a descriptor element
  (\<open>isinstance(other, DescriptorElement)\<close>) or something else.
\<close>

datatype ('c, 'v, 'a) py_object =
  Descriptor "('c, 'v, 'a) descriptor_element"
| NotDescriptor 'v

definition descriptor_eq ::
  "('a \<Rightarrow> 'a \<Rightarrow> bool) \<Rightarrow> ('c, 'v, 'a) descriptor_element \<Rightarrow> ('c, 'v, 'a) py_object \<Rightarrow> bool"
where
  "descriptor_eq eq self other =
     (case other of
        Descriptor d \<Rightarrow> array_equal eq (vector self) (vector d)
      | NotDescriptor x \<Rightarrow> False)"

definition descriptor_ne ::
  "('a \<Rightarrow> 'a \<Rightarrow> bool) \<Rightarrow> ('c, 'v, 'a) descriptor_element \<Rightarrow> ('c, 'v, 'a) py_object \<Rightarrow> bool"
where
  "descriptor_ne eq self other = (\<not> descriptor_eq eq self other)"

text \<open>
  The specification's equality of two optional vectors: absent equals absent only, and
  two vectors are equal when they have the same length and equal entries.
\<close>

definition vectors_elementwise_equal ::
  "('a \<Rightarrow> 'a \<Rightarrow> bool) \<Rightarrow> 'a list option \<Rightarrow> 'a list option \<Rightarrow> bool"
where
  "vectors_elementwise_equal eq v w =
     (case (v, w) of
        (None, None) \<Rightarrow> True
      | (Some xs, Some ys) \<Rightarrow> list_all2 eq xs ys
      | _ \<Rightarrow> False)"

text \<open>\<open>__hash__\<close>: Python's \<open>hash\<close> of the uuid. The builtin is the parameter \<open>hash\<close>.\<close>

definition descriptor_hash :: "('v \<Rightarrow> int) \<Rightarrow> ('c, 'v, 'a) descriptor_element \<Rightarrow> int" where
  "descriptor_hash hash self = hash (uuid self)"

text \<open>\<open>__getstate__\<close> builds a dictionary with two string keys.\<close>

definition getstate :: "('c, 'v, 'a) descriptor_element \<Rightarrow> (string \<rightharpoonup> 'v)" where
  "getstate self = [''_type_label'' \<mapsto> priv_type_label self, ''_uuid'' \<mapsto> priv_uuid self]"

text \<open>
  \<open>__setstate__\<close> assigns the two attributes in turn. A missing key raises \<open>KeyError\<close>
  at its lookup, after the assignments before it. The result is the object after the
  call together with the exception raised, if any.
\<close>

definition setstate ::
  "('c, 'v, 'a) descriptor_element \<Rightarrow> (string \<rightharpoonup> 'v)
   \<Rightarrow> ('c, 'v, 'a) descriptor_element \<times> 'v py_error option"
where
  "setstate self state =
     (case state ''_type_label'' of
        None \<Rightarrow> (self, Some KeyError)
      | Some t \<Rightarrow>
          (case state ''_uuid'' of
             None \<Rightarrow> (self\<lparr>priv_type_label := t\<rparr>, Some KeyError)
           | Some u \<Rightarrow> (self\<lparr>priv_type_label := t, priv_uuid := u\<rparr>, None)))"

section \<open>Configuration\<close>

text \<open>\<open>del d[k]\<close> on a dictionary: a missing key raises \<open>KeyError\<close>.\<close>

definition py_del :: "('k \<rightharpoonup> 'x) \<Rightarrow> 'k \<Rightarrow> 'v py_error + ('k \<rightharpoonup> 'x)" where
  "py_del d k = (case d k of None \<Rightarrow> Inl KeyError | Some x \<Rightarrow> Inr (d(k := None)))"

text \<open>
  \<open>get_default_config\<close>. The parameter \<open>parent_default_config\<close> is the dictionary that
  \<open>super(DescriptorElement, cls).get_default_config()\<close> returns: the generic discovery
  of \<open>smqtk_core.Configurable\<close>, which reads the parameters of the constructor of
  \<open>cls\<close>. The statement \<open>del dc['type_str'], dc['uuid']\<close> deletes from left to right.
\<close>

definition get_default_config :: "(string \<rightharpoonup> 'v) \<Rightarrow> 'v py_error + (string \<rightharpoonup> 'v)" where
  "get_default_config parent_default_config =
     (let dc = parent_default_config
      in case py_del dc ''type_str'' of
           Inl e \<Rightarrow> Inl e
         | Inr dc1 \<Rightarrow> (case py_del dc1 ''uuid'' of Inl e \<Rightarrow> Inl e | Inr dc2 \<Rightarrow> Inr dc2))"

text \<open>
  \<open>from_config\<close>. Two functions of \<open>smqtk_core\<close> are parameters:
  \<^item> \<open>merge_dict a b\<close> (\<open>smqtk_core.dict.merge_dict\<close>), which updates \<open>a\<close> in place from
    \<open>b\<close>; the model returns both dictionaries as they are after the call;
  \<^item> \<open>parent_from_config c merge_default\<close>, the class method
    \<open>Configurable.from_config\<close> of the class at hand, which constructs the instance.
  The result is what the parent returns, the dictionary \<open>c\<close> handed to it, and
  \<open>config_dict\<close> as it is after the call.
\<close>

definition from_config ::
  "((string \<rightharpoonup> 'v) \<Rightarrow> (string \<rightharpoonup> 'v) \<Rightarrow> (string \<rightharpoonup> 'v) \<times> (string \<rightharpoonup> 'v))
   \<Rightarrow> ((string \<rightharpoonup> 'v) \<Rightarrow> bool \<Rightarrow> 'r)
   \<Rightarrow> (string \<rightharpoonup> 'v) \<Rightarrow> 'v \<Rightarrow> 'v \<Rightarrow> bool
   \<Rightarrow> 'r \<times> (string \<rightharpoonup> 'v) \<times> (string \<rightharpoonup> 'v)"
where
  "from_config merge_dict parent_from_config config_dict type_str uuid' merge_default =
     (let c = Map.empty;
          (c, config_dict) = merge_dict c config_dict;
          c = c(''type_str'' \<mapsto> type_str);
          c = c(''uuid'' \<mapsto> uuid')
      in (parent_from_config c merge_default, c, config_dict))"

section \<open>The in-memory descriptor set\<close>

type_synonym byte = "8 word"

text \<open>
  Modelled from the spec: the byte store (\<open>ByteStore\<close>), an external collaborator of
  which the sources hold no code. It is a replaceable byte buffer with \<open>isEmpty\<close>,
  \<open>getBytes\<close> and \<open>setBytes\<close>; a write can fail, here when the store is not writable.
\<close>

record byte_store =
  content :: "byte list"
  writable :: bool

text \<open>
  Modelled from the spec: the error taxonomy of the descriptor set (\<open>NotFoundError\<close>,
  \<open>SerializationFault\<close>) and the fault of a failed write to the cache store.
\<close>

datatype set_error = NotFoundError | SerializationFault | WriteFault

text \<open>Modelled from the spec: \<open>ByteStore.isEmpty\<close>.\<close>

definition isEmpty :: "byte_store \<Rightarrow> bool" where
  "isEmpty c = (content c = [])"

text \<open>Modelled from the spec: \<open>ByteStore.getBytes\<close>.\<close>

definition getBytes :: "byte_store \<Rightarrow> byte list" where
  "getBytes c = content c"

text \<open>Modelled from the spec: \<open>ByteStore.setBytes\<close>, which replaces the whole content.\<close>

definition setBytes :: "byte_store \<Rightarrow> byte list \<Rightarrow> set_error + byte_store" where
  "setBytes c bs = (if writable c then Inr (c\<lparr>content := bs\<rparr>) else Inl WriteFault)"

text \<open>
  Modelled from the spec: \<open>MemoryDescriptorSet\<close>, whose implementation is not among the
  sources (only its tests are). It holds the table from keys to elements, the optional
  cache store and the serialization protocol, which is passed through to the serializer.
\<close>

record ('c, 'v, 'a, 'p) memory_descriptor_set =
  table :: "'v \<rightharpoonup> ('c, 'v, 'a) descriptor_element"
  cacheStore :: "byte_store option"
  cachePickleProtocol :: 'p

text \<open>
  Modelled from the spec: \<open>cacheTable()\<close>, the re-serialization of the current table
  into the cache store, a no-op when there is no cache store. The serializer is the
  parameter \<open>serialize\<close>. The result of every operation is the set after the call and the
  error raised, if any.
\<close>

definition cacheTable ::
  "('p \<Rightarrow> ('v \<rightharpoonup> ('c, 'v, 'a) descriptor_element) \<Rightarrow> byte list)
   \<Rightarrow> ('c, 'v, 'a, 'p) memory_descriptor_set
   \<Rightarrow> ('c, 'v, 'a, 'p) memory_descriptor_set \<times> set_error option"
where
  "cacheTable serialize s =
     (case cacheStore s of
        None \<Rightarrow> (s, None)
      | Some c \<Rightarrow>
          (case setBytes c (serialize (cachePickleProtocol s) (table s)) of
             Inl e \<Rightarrow> (s, Some e)
           | Inr c' \<Rightarrow> (s\<lparr>cacheStore := Some c'\<rparr>, None)))"

text \<open>
  Modelled from the spec: \<open>addDescriptor\<close>, insert or overwrite by key, then
  \<open>cacheTable()\<close>.
\<close>

definition addDescriptor ::
  "('p \<Rightarrow> ('v \<rightharpoonup> ('c, 'v, 'a) descriptor_element) \<Rightarrow> byte list)
   \<Rightarrow> ('c, 'v, 'a, 'p) memory_descriptor_set \<Rightarrow> ('c, 'v, 'a) descriptor_element
   \<Rightarrow> ('c, 'v, 'a, 'p) memory_descriptor_set \<times> set_error option"
where
  "addDescriptor serialize s d = cacheTable serialize (s\<lparr>table := (table s)(uuid d \<mapsto> d)\<rparr>)"

text \<open>
  Modelled from the spec: \<open>addManyDescriptors\<close>, the inserts in the order given, then one
  \<open>cacheTable()\<close>.
\<close>

definition addManyDescriptors ::
  "('p \<Rightarrow> ('v \<rightharpoonup> ('c, 'v, 'a) descriptor_element) \<Rightarrow> byte list)
   \<Rightarrow> ('c, 'v, 'a, 'p) memory_descriptor_set \<Rightarrow> ('c, 'v, 'a) descriptor_element list
   \<Rightarrow> ('c, 'v, 'a, 'p) memory_descriptor_set \<times> set_error option"
where
  "addManyDescriptors serialize s ds =
     cacheTable serialize (s\<lparr>table := fold (\<lambda>d t. t(uuid d \<mapsto> d)) ds (table s)\<rparr>)"

text \<open>
  Modelled from the spec: \<open>removeDescriptor\<close>, which fails with \<open>NotFoundError\<close> when the
  key is absent and otherwise removes it, then \<open>cacheTable()\<close>.
\<close>

definition removeDescriptor ::
  "('p \<Rightarrow> ('v \<rightharpoonup> ('c, 'v, 'a) descriptor_element) \<Rightarrow> byte list)
   \<Rightarrow> ('c, 'v, 'a, 'p) memory_descriptor_set \<Rightarrow> 'v
   \<Rightarrow> ('c, 'v, 'a, 'p) memory_descriptor_set \<times> set_error option"
where
  "removeDescriptor serialize s k =
     (case table s k of
        None \<Rightarrow> (s, Some NotFoundError)
      | Some d \<Rightarrow> cacheTable serialize (s\<lparr>table := (table s)(k := None)\<rparr>))"

text \<open>
  Modelled from the spec: the removal of several keys from a table, failing at the
  first key that is absent.
\<close>

fun remove_keys :: "('k \<rightharpoonup> 'd) \<Rightarrow> 'k list \<Rightarrow> set_error + ('k \<rightharpoonup> 'd)" where
  "remove_keys t [] = Inr t"
| "remove_keys t (k # ks) =
     (case t k of None \<Rightarrow> Inl NotFoundError | Some d \<Rightarrow> remove_keys (t(k := None)) ks)"

text \<open>
  Modelled from the spec: \<open>removeManyDescriptors\<close>, which fails with \<open>NotFoundError\<close> if
  any key is absent and otherwise removes the keys, then one \<open>cacheTable()\<close>. The spec does
  not say what the table holds after a failed removal; the model leaves it as it was.
\<close>

definition removeManyDescriptors ::
  "('p \<Rightarrow> ('v \<rightharpoonup> ('c, 'v, 'a) descriptor_element) \<Rightarrow> byte list)
   \<Rightarrow> ('c, 'v, 'a, 'p) memory_descriptor_set \<Rightarrow> 'v list
   \<Rightarrow> ('c, 'v, 'a, 'p) memory_descriptor_set \<times> set_error option"
where
  "removeManyDescriptors serialize s ks =
     (case remove_keys (table s) ks of
        Inl e \<Rightarrow> (s, Some e)
      | Inr t \<Rightarrow> cacheTable serialize (s\<lparr>table := t\<rparr>))"

text \<open>
  Modelled from the spec: \<open>clear\<close>, which empties the table, then \<open>cacheTable()\<close>: with a
  cache store, the store becomes a serialized empty table.
\<close>

definition clear ::
  "('p \<Rightarrow> ('v \<rightharpoonup> ('c, 'v, 'a) descriptor_element) \<Rightarrow> byte list)
   \<Rightarrow> ('c, 'v, 'a, 'p) memory_descriptor_set
   \<Rightarrow> ('c, 'v, 'a, 'p) memory_descriptor_set \<times> set_error option"
where
  "clear serialize s = cacheTable serialize (s\<lparr>table := Map.empty\<rparr>)"

text \<open>Modelled from the spec: the five mutating calls of the descriptor set, as data.\<close>

datatype ('c, 'v, 'a) mutation =
  AddDescriptor "('c, 'v, 'a) descriptor_element"
| AddManyDescriptors "('c, 'v, 'a) descriptor_element list"
| RemoveDescriptor 'v
| RemoveManyDescriptors "'v list"
| Clear

text \<open>Modelled from the spec: one mutating call on a set.\<close>

fun mutate ::
  "('p \<Rightarrow> ('v \<rightharpoonup> ('c, 'v, 'a) descriptor_element) \<Rightarrow> byte list)
   \<Rightarrow> ('c, 'v, 'a, 'p) memory_descriptor_set \<Rightarrow> ('c, 'v, 'a) mutation
   \<Rightarrow> ('c, 'v, 'a, 'p) memory_descriptor_set \<times> set_error option"
where
  "mutate serialize s (AddDescriptor d) = addDescriptor serialize s d"
| "mutate serialize s (AddManyDescriptors ds) = addManyDescriptors serialize s ds"
| "mutate serialize s (RemoveDescriptor k) = removeDescriptor serialize s k"
| "mutate serialize s (RemoveManyDescriptors ks) = removeManyDescriptors serialize s ks"
| "mutate serialize s Clear = clear serialize s"

text \<open>
  Modelled from the spec: construction. With a cache store that is not empty the table
  is the deserialized content, and a deserialization fault is fatal; otherwise the table
  starts empty. The deserializer is the parameter \<open>deserialize\<close>.
\<close>

definition new_memory_descriptor_set ::
  "(byte list \<Rightarrow> ('v \<rightharpoonup> ('c, 'v, 'a) descriptor_element) option)
   \<Rightarrow> byte_store option \<Rightarrow> 'p \<Rightarrow> set_error + ('c, 'v, 'a, 'p) memory_descriptor_set"
where
  "new_memory_descriptor_set deserialize cache protocol =
     (case cache of
        None \<Rightarrow> Inr \<lparr>table = Map.empty, cacheStore = None, cachePickleProtocol = protocol\<rparr>
      | Some c \<Rightarrow>
          if isEmpty c
          then Inr \<lparr>table = Map.empty, cacheStore = Some c, cachePickleProtocol = protocol\<rparr>
          else
            (case deserialize (getBytes c) of
               None \<Rightarrow> Inl SerializationFault
             | Some t \<Rightarrow> Inr \<lparr>table = t, cacheStore = Some c, cachePickleProtocol = protocol\<rparr>))"

section \<open>Concrete inputs\<close>

text \<open>
  Three elements of two classes; classes, labels and uuids are strings, vectors hold
  integers.
\<close>

definition example_descriptors :: "(string, string, int) descriptor_element list" where
  "example_descriptors =
     [\<lparr>cls = ''X'', priv_type_label = ''gen'', priv_uuid = ''a'', vector = Some [1, 2]\<rparr>,
      \<lparr>cls = ''Y'', priv_type_label = ''gen'', priv_uuid = ''b'', vector = Some [3, 4]\<rparr>,
      \<lparr>cls = ''X'', priv_type_label = ''gen'', priv_uuid = ''c'', vector = None\<rparr>]"

text \<open>The same three elements, the third with the uuid of the first.\<close>

definition example_duplicates :: "(string, string, int) descriptor_element list" where
  "example_duplicates =
     [\<lparr>cls = ''X'', priv_type_label = ''gen'', priv_uuid = ''a'', vector = Some [1, 2]\<rparr>,
      \<lparr>cls = ''Y'', priv_type_label = ''gen'', priv_uuid = ''b'', vector = Some [3, 4]\<rparr>,
      \<lparr>cls = ''X'', priv_type_label = ''gen'', priv_uuid = ''a'', vector = Some [5]\<rparr>]"

text \<open>
  A batch fetch that reads every element of its batch and yields the pairs in the
  reverse order, as tasks completing out of order would.
\<close>

definition reversing_fetch ::
  "'c \<Rightarrow> ('c, 'v, 'a) descriptor_element list \<Rightarrow> ('v, 'a) fetch_result"
where
  "reversing_fetch c batch =
     \<lparr>yielded = rev (map (\<lambda>d. (uuid d, vector d)) batch), raised = None\<rparr>"

text \<open>A batch fetch that also yields a pair for a uuid nobody asked for.\<close>

definition stray_fetch ::
  "string \<Rightarrow> (string, string, int) descriptor_element list \<Rightarrow> (string, int) fetch_result"
where
  "stray_fetch c batch =
     \<lparr>yielded = map (\<lambda>d. (uuid d, vector d)) batch @ [(''zz'', Some [9])], raised = None\<rparr>"

text \<open>
  A serializer of finite tables whose keys, type labels and uuids are natural numbers and
  whose vectors hold no information but their length. A table is written as a tag byte
  followed by four numbers for every entry, in the order of the keys: the key, the type
  label, the uuid, and \<open>0\<close> for an absent vector or the length of the vector plus one. A
  number \<open>n\<close> is written as \<open>n\<close> bytes \<open>1\<close> and a byte \<open>0\<close>.
\<close>

fun encode_nats :: "nat list \<Rightarrow> byte list" where
  "encode_nats [] = []"
| "encode_nats (n # ns) = replicate n 1 @ 0 # encode_nats ns"

fun decode_nats :: "nat \<Rightarrow> byte list \<Rightarrow> nat list" where
  "decode_nats acc [] = []"
| "decode_nats acc (b # bs) =
     (if b = 0 then acc # decode_nats 0 bs else decode_nats (Suc acc) bs)"

definition entry_nats :: "nat \<times> (unit, nat, unit) descriptor_element \<Rightarrow> nat list" where
  "entry_nats e =
     (case e of
        (k, d) \<Rightarrow>
          [k, priv_type_label d, priv_uuid d,
           (case vector d of None \<Rightarrow> 0 | Some xs \<Rightarrow> Suc (length xs))])"

fun table_entries :: "nat list \<Rightarrow> (nat \<times> (unit, nat, unit) descriptor_element) list" where
  "table_entries (k # l # u # v # rest) =
     (k, \<lparr>cls = (), priv_type_label = l, priv_uuid = u,
          vector = (case v of 0 \<Rightarrow> None | Suc n \<Rightarrow> Some (replicate n ()))\<rparr>)
     # table_entries rest"
| "table_entries ns = []"

definition example_serialize ::
  "unit \<Rightarrow> (nat \<rightharpoonup> (unit, nat, unit) descriptor_element) \<Rightarrow> byte list"
where
  "example_serialize p t =
     2 # encode_nats (concat (map (\<lambda>k. entry_nats (k, the (t k))) (sorted_list_of_set (dom t))))"

definition example_deserialize ::
  "byte list \<Rightarrow> (nat \<rightharpoonup> (unit, nat, unit) descriptor_element) option"
where
  "example_deserialize bs =
     (case bs of
        [] \<Rightarrow> None
      | b # rest \<Rightarrow> Some (map_of (table_entries (decode_nats 0 rest))))"

section \<open>Properties of batched retrieval\<close>

lemma group_loop_append:
  "group_loop s (xs @ ys) = group_loop (group_loop s xs) ys"
  by (induction s xs rule: group_loop.induct) simp_all

lemma group_loop_snoc:
  "group_loop gmv_init (enumerate 0 (ds @ [d])) =
     (let s = group_loop gmv_init (enumerate 0 ds) in
      \<lparr>batch_dictionary = batch_append (cls d) d (batch_dictionary s),
       uuid_indices = (uuid_indices s)(uuid d \<mapsto> int (length ds)),
       index = int (length ds)\<rparr>)"
  by (simp add: enumerate_append_eq group_loop_append Let_def)

lemma index_group_loop:
  "index (group_loop gmv_init (enumerate 0 ds)) = int (length ds) - 1"
proof (induction ds rule: rev_induct)
  case Nil
  then show ?case by (simp add: gmv_init_def)
next
  case (snoc d ds)
  then show ?case by (simp add: group_loop_snoc Let_def)
qed

lemma py_setitem_length:
  "py_setitem xs i v = Inr ys \<Longrightarrow> length ys = length xs"
  by (auto simp: py_setitem_def Let_def split: if_splits)

lemma write_pairs_length:
  "write_pairs idx ov ps = Inr ov' \<Longrightarrow> length ov' = length ov"
proof (induction ps arbitrary: ov)
  case Nil
  then show ?case by simp
next
  case (Cons p ps)
  then show ?case
    by (cases p) (fastforce split: option.splits sum.splits dest: py_setitem_length)
qed

lemma consume_fetch_length:
  "consume_fetch idx ov r = Inr ov' \<Longrightarrow> length ov' = length ov"
  by (auto simp: consume_fetch_def split: sum.splits option.splits dest: write_pairs_length)

lemma fetch_loop_length:
  "fetch_loop fetch idx ov bs = Inr ov' \<Longrightarrow> length ov' = length ov"
proof (induction bs arbitrary: ov)
  case Nil
  then show ?case by simp
next
  case (Cons b bs)
  then show ?case
    by (cases b) (fastforce split: sum.splits dest: consume_fetch_length)
qed

lemma batch_append_map_of:
  "map_of (batch_append c d bd) =
     (map_of bd)(c \<mapsto> (case map_of bd c of None \<Rightarrow> [d] | Some b \<Rightarrow> b @ [d]))"
  by (induction c d bd rule: batch_append.induct) (auto simp: fun_eq_iff)

lemma batch_append_keys:
  "set (map fst (batch_append c d bd)) = insert c (set (map fst bd))"
  by (induction c d bd rule: batch_append.induct) auto

lemma batch_append_distinct:
  "distinct (map fst bd) \<Longrightarrow> distinct (map fst (batch_append c d bd))"
proof (induction c d bd rule: batch_append.induct)
  case (1 c d)
  then show ?case by simp
next
  case (2 c d c' ds rest)
  have "set (map fst (batch_append c d rest)) = insert c (set (map fst rest))"
    by (rule batch_append_keys)
  with 2 show ?case by auto
qed

lemma batches_group_loop:
  fixes ds :: "('c, 'v, 'a) descriptor_element list"
  defines "bd \<equiv> batch_dictionary (group_loop gmv_init (enumerate 0 ds))"
  shows "distinct (map fst bd) \<and>
         map_of bd = (\<lambda>c. if c \<in> cls ` set ds then Some (filter (\<lambda>d. cls d = c) ds) else None)"
  unfolding bd_def
proof (induction ds rule: rev_induct)
  case Nil
  then show ?case by (simp add: gmv_init_def fun_eq_iff)
next
  case (snoc d ds)
  let ?bd = "batch_dictionary (group_loop gmv_init (enumerate 0 ds))"
  let ?bd' = "batch_dictionary (group_loop gmv_init (enumerate 0 (ds @ [d])))"
  have bd': "?bd' = batch_append (cls d) d ?bd"
    by (simp add: group_loop_snoc Let_def)
  have dist: "distinct (map fst ?bd')"
    using snoc by (simp add: bd' batch_append_distinct)
  have m: "map_of ?bd c = (if c \<in> cls ` set ds then Some (filter (\<lambda>d. cls d = c) ds) else None)"
    for c
    using snoc by simp
  have "map_of ?bd' c =
        (if c \<in> cls ` set (ds @ [d]) then Some (filter (\<lambda>x. cls x = c) (ds @ [d])) else None)"
    for c
  proof (cases "c = cls d")
    case True
    show ?thesis
    proof (cases "cls d \<in> cls ` set ds")
      case True
      with \<open>c = cls d\<close> show ?thesis
        by (simp add: bd' batch_append_map_of m)
    next
      case False
      then have "\<forall>x\<in>set ds. cls x \<noteq> cls d"
        by (metis imageI)
      then have "filter (\<lambda>x. cls x = cls d) ds = []"
        by (simp add: filter_empty_conv)
      with False \<open>c = cls d\<close> show ?thesis
        by (simp add: bd' batch_append_map_of m)
    qed
  next
    case False
    then have "filter (\<lambda>x. cls x = c) (ds @ [d]) = filter (\<lambda>x. cls x = c) ds"
      by auto
    moreover have "c \<in> cls ` set (ds @ [d]) \<longleftrightarrow> c \<in> cls ` set ds"
      using False by auto
    ultimately show ?thesis
      using False by (simp add: bd' batch_append_map_of m)
  qed
  with dist show ?case by (simp add: fun_eq_iff)
qed

lemma batch_dictionary_iff:
  "(c, b) \<in> set (batch_dictionary (group_loop gmv_init (enumerate 0 ds))) \<longleftrightarrow>
     c \<in> cls ` set ds \<and> b = filter (\<lambda>d. cls d = c) ds"
proof -
  let ?bd = "batch_dictionary (group_loop gmv_init (enumerate 0 ds))"
  have d: "distinct (map fst ?bd)"
    and m: "map_of ?bd = (\<lambda>c. if c \<in> cls ` set ds then Some (filter (\<lambda>d. cls d = c) ds) else None)"
    using batches_group_loop [of ds] by simp_all
  have "(c, b) \<in> set ?bd \<longleftrightarrow> map_of ?bd c = Some b"
    using d by simp
  then show ?thesis
    by (auto simp: m)
qed

lemma uuid_indices_SomeD:
  "uuid_indices (group_loop gmv_init (enumerate 0 ds)) u = Some i \<Longrightarrow>
     \<exists>p<length ds. i = int p \<and> uuid (ds ! p) = u \<and>
        (\<forall>m. p < m \<and> m < length ds \<longrightarrow> uuid (ds ! m) \<noteq> u)"
proof (induction ds arbitrary: i rule: rev_induct)
  case Nil
  then show ?case by (simp add: gmv_init_def)
next
  case (snoc d ds)
  show ?case
  proof (cases "uuid d = u")
    case True
    with snoc.prems have "i = int (length ds)"
      by (simp add: group_loop_snoc Let_def)
    with True show ?thesis
      by (intro exI [of _ "length ds"]) auto
  next
    case False
    with snoc.prems have "uuid_indices (group_loop gmv_init (enumerate 0 ds)) u = Some i"
      by (simp add: group_loop_snoc Let_def)
    from snoc.IH [OF this] obtain p where p: "p < length ds" "i = int p" "uuid (ds ! p) = u"
      "\<forall>m. p < m \<and> m < length ds \<longrightarrow> uuid (ds ! m) \<noteq> u"
      by blast
    have "\<forall>m. p < m \<and> m < length (ds @ [d]) \<longrightarrow> uuid ((ds @ [d]) ! m) \<noteq> u"
      using p(4) False by (auto simp: nth_append less_Suc_eq)
    with p show ?thesis
      by (intro exI [of _ p]) (simp add: nth_append)
  qed
qed

lemma uuid_indices_dom:
  "dom (uuid_indices (group_loop gmv_init (enumerate 0 ds))) = uuid ` set ds"
proof (induction ds rule: rev_induct)
  case Nil
  then show ?case by (simp add: gmv_init_def)
next
  case (snoc d ds)
  have "dom (uuid_indices (group_loop gmv_init (enumerate 0 (ds @ [d])))) =
        insert (uuid d) (dom (uuid_indices (group_loop gmv_init (enumerate 0 ds))))"
    by (auto simp: group_loop_snoc Let_def domIff split: if_splits)
  with snoc show ?case by simp
qed

lemma uuid_indices_last:
  assumes "p < length ds"
    and "\<forall>m. p < m \<and> m < length ds \<longrightarrow> uuid (ds ! m) \<noteq> uuid (ds ! p)"
  shows "uuid_indices (group_loop gmv_init (enumerate 0 ds)) (uuid (ds ! p)) = Some (int p)"
proof -
  let ?idx = "uuid_indices (group_loop gmv_init (enumerate 0 ds))"
  have "uuid (ds ! p) \<in> dom ?idx"
    using assms(1) by (simp add: uuid_indices_dom)
  then obtain i where i: "?idx (uuid (ds ! p)) = Some i" by blast
  from uuid_indices_SomeD [OF this] obtain q where q: "q < length ds" "i = int q"
    "uuid (ds ! q) = uuid (ds ! p)" "\<forall>m. q < m \<and> m < length ds \<longrightarrow> uuid (ds ! m) \<noteq> uuid (ds ! p)"
    by blast
  have "q = p"
  proof (rule ccontr)
    assume "q \<noteq> p"
    then consider "q < p" | "p < q" by linarith
    then show False
      using assms q by cases auto
  qed
  with i q show ?thesis by simp
qed

lemma uuid_indices_in_range:
  "in_range (uuid_indices (group_loop gmv_init (enumerate 0 ds))) (length ds)"
  unfolding in_range_def using uuid_indices_SomeD by fastforce


lemma py_setitem_in_range:
  "0 \<le> i \<Longrightarrow> i < int (length xs) \<Longrightarrow> py_setitem xs i v = Inr (xs[nat i := v])"
  by (simp add: py_setitem_def Let_def)

lemma last_write_append:
  "last_write idx p (ps @ qs) x = last_write idx p qs (last_write idx p ps x)"
  by (induction idx p ps x rule: last_write.induct) simp_all

lemma last_write_unwritten:
  "\<forall>u. idx u \<noteq> Some (int p) \<Longrightarrow> last_write idx p ps x = x"
  by (induction idx p ps x rule: last_write.induct) simp_all

lemma last_write_map_of:
  assumes "\<forall>u. idx u = Some (int p) \<longleftrightarrow> u = k"
  shows "last_write idx p ps x = (case map_of (rev ps) k of None \<Rightarrow> x | Some v \<Rightarrow> v)"
  using assms
proof (induction idx p ps x rule: last_write.induct)
  case (1 idx p x)
  then show ?case by simp
next
  case (2 idx p u vec rest x)
  then show ?case
    by (auto simp: map_add_def split: option.splits)
qed

lemma write_pairs_nth:
  "in_range idx (length ov) \<Longrightarrow> write_pairs idx ov ps = Inr ov' \<Longrightarrow> p < length ov \<Longrightarrow>
     ov' ! p = last_write idx p ps (ov ! p)"
proof (induction ps arbitrary: ov)
  case Nil
  then show ?case by simp
next
  case (Cons q ps)
  obtain u vec where q: "q = (u, vec)" by (cases q)
  from Cons.prems(2) q obtain i where i: "idx u = Some i"
    by (auto split: option.splits)
  with Cons.prems(1) have r: "0 \<le> i" "i < int (length ov)"
    by (auto simp: in_range_def)
  then have w: "write_pairs idx (ov[nat i := vec]) ps = Inr ov'"
    using Cons.prems(2) q i by (simp add: py_setitem_in_range)
  have "ov' ! p = last_write idx p ps (ov[nat i := vec] ! p)"
    using Cons.IH [OF _ w] Cons.prems(1,3) by simp
  moreover have "ov[nat i := vec] ! p = (if idx u = Some (int p) then vec else ov ! p)"
    using r i Cons.prems(3) by (auto simp: nth_list_update)
  ultimately show ?case
    by (simp add: q)
qed

lemma write_pairs_keys:
  "write_pairs idx ov ps = Inr ov' \<Longrightarrow> fst ` set ps \<subseteq> dom idx"
proof (induction ps arbitrary: ov)
  case Nil
  then show ?case by simp
next
  case (Cons q ps)
  then show ?case
    by (cases q) (fastforce split: option.splits sum.splits)
qed

lemma write_pairs_total:
  "in_range idx (length ov) \<Longrightarrow> fst ` set ps \<subseteq> dom idx \<Longrightarrow> \<exists>ov'. write_pairs idx ov ps = Inr ov'"
proof (induction ps arbitrary: ov)
  case Nil
  then show ?case by simp
next
  case (Cons q ps)
  obtain u vec where q: "q = (u, vec)" by (cases q)
  from Cons.prems(2) q obtain i where i: "idx u = Some i"
    by auto
  with Cons.prems(1) have r: "0 \<le> i" "i < int (length ov)"
    by (auto simp: in_range_def)
  have "\<exists>ov'. write_pairs idx (ov[nat i := vec]) ps = Inr ov'"
    using Cons.IH [of "ov[nat i := vec]"] Cons.prems by simp
  then show ?case
    using q i r by (simp add: py_setitem_in_range)
qed

lemma write_pairs_error:
  "in_range idx (length ov) \<Longrightarrow> write_pairs idx ov ps = Inl e \<Longrightarrow> e = KeyError"
proof (induction ps arbitrary: ov)
  case Nil
  then show ?case by simp
next
  case (Cons q ps)
  obtain u vec where q: "q = (u, vec)" by (cases q)
  show ?case
  proof (cases "idx u")
    case None
    with Cons.prems(2) q show ?thesis by simp
  next
    case (Some i)
    with Cons.prems(1) have r: "0 \<le> i" "i < int (length ov)"
      by (auto simp: in_range_def)
    then have "write_pairs idx (ov[nat i := vec]) ps = Inl e"
      using Cons.prems(2) q Some by (simp add: py_setitem_in_range)
    then show ?thesis
      using Cons.IH [of "ov[nat i := vec]"] Cons.prems(1) by simp
  qed
qed

lemma fetched_pairs_Cons:
  "fetched_pairs fetch ((c, b) # bs) = yielded (fetch c b) @ fetched_pairs fetch bs"
  by (simp add: fetched_pairs_def)

lemma fetch_loop_nth:
  "in_range idx (length ov) \<Longrightarrow> fetch_loop fetch idx ov bs = Inr ov' \<Longrightarrow> p < length ov \<Longrightarrow>
     ov' ! p = last_write idx p (fetched_pairs fetch bs) (ov ! p)"
proof (induction bs arbitrary: ov)
  case Nil
  then show ?case by (simp add: fetched_pairs_def)
next
  case (Cons cb bs)
  obtain c b where cb: "cb = (c, b)" by (cases cb)
  from Cons.prems(2) cb obtain ov1 where
    w: "write_pairs idx ov (yielded (fetch c b)) = Inr ov1"
    and l: "fetch_loop fetch idx ov1 bs = Inr ov'"
    by (auto simp: consume_fetch_def split: sum.splits option.splits)
  have len: "length ov1 = length ov"
    using w by (rule write_pairs_length)
  have "ov' ! p = last_write idx p (fetched_pairs fetch bs) (ov1 ! p)"
    using Cons.IH [OF _ l] Cons.prems(1,3) len by simp
  moreover have "ov1 ! p = last_write idx p (yielded (fetch c b)) (ov ! p)"
    using write_pairs_nth [OF Cons.prems(1) w Cons.prems(3)] .
  ultimately show ?case
    by (simp add: cb fetched_pairs_Cons last_write_append)
qed

lemma fetch_loop_Inr_D:
  "fetch_loop fetch idx ov bs = Inr ov' \<Longrightarrow> (c, b) \<in> set bs \<Longrightarrow>
     raised (fetch c b) = None \<and> fst ` set (yielded (fetch c b)) \<subseteq> dom idx"
proof (induction bs arbitrary: ov)
  case Nil
  then show ?case by simp
next
  case (Cons cb bs)
  obtain c' b' where cb: "cb = (c', b')" by (cases cb)
  from Cons.prems(1) cb obtain ov1 where
    w: "write_pairs idx ov (yielded (fetch c' b')) = Inr ov1"
    and r: "raised (fetch c' b') = None"
    and l: "fetch_loop fetch idx ov1 bs = Inr ov'"
    by (auto simp: consume_fetch_def split: sum.splits option.splits)
  show ?case
  proof (cases "(c, b) = (c', b')")
    case True
    with r write_pairs_keys [OF w] show ?thesis by simp
  next
    case False
    with Cons.prems(2) cb have "(c, b) \<in> set bs" by auto
    with Cons.IH [OF l] show ?thesis by simp
  qed
qed

lemma fetch_loop_total:
  "in_range idx (length ov) \<Longrightarrow>
   \<forall>(c, b) \<in> set bs. raised (fetch c b) = None \<and> fst ` set (yielded (fetch c b)) \<subseteq> dom idx \<Longrightarrow>
   \<exists>ov'. fetch_loop fetch idx ov bs = Inr ov'"
proof (induction bs arbitrary: ov)
  case Nil
  then show ?case by simp
next
  case (Cons cb bs)
  obtain c b where cb: "cb = (c, b)" by (cases cb)
  from Cons.prems(2) cb have r: "raised (fetch c b) = None"
    and k: "fst ` set (yielded (fetch c b)) \<subseteq> dom idx"
    by simp_all
  from write_pairs_total [OF Cons.prems(1) k] obtain ov1 where
    w: "write_pairs idx ov (yielded (fetch c b)) = Inr ov1" by blast
  have "length ov1 = length ov"
    using w by (rule write_pairs_length)
  with Cons.IH [of ov1] Cons.prems obtain ov' where "fetch_loop fetch idx ov1 bs = Inr ov'"
    by auto
  with w r show ?case
    by (simp add: cb consume_fetch_def)
qed

lemma fetch_loop_error:
  "in_range idx (length ov) \<Longrightarrow> fetch_loop fetch idx ov bs = Inl e \<Longrightarrow>
     e = KeyError \<or> (\<exists>(c, b) \<in> set bs. \<exists>x. raised (fetch c b) = Some x \<and> e = Fault x)"
proof (induction bs arbitrary: ov)
  case Nil
  then show ?case by simp
next
  case (Cons cb bs)
  obtain c b where cb: "cb = (c, b)" by (cases cb)
  show ?case
  proof (cases "write_pairs idx ov (yielded (fetch c b))")
    case (Inl e')
    with Cons.prems cb have "e = e'"
      by (simp add: consume_fetch_def)
    with write_pairs_error [OF Cons.prems(1) Inl] show ?thesis by simp
  next
    case (Inr ov1)
    have len: "length ov1 = length ov"
      using Inr by (rule write_pairs_length)
    show ?thesis
    proof (cases "raised (fetch c b)")
      case None
      with Inr Cons.prems(2) cb have "fetch_loop fetch idx ov1 bs = Inl e"
        by (simp add: consume_fetch_def)
      with Cons.IH [of ov1] Cons.prems(1) len show ?thesis
        by auto
    next
      case (Some x)
      with Inr Cons.prems(2) cb have "e = Fault x"
        by (simp add: consume_fetch_def)
      with Some cb show ?thesis by auto
    qed
  qed
qed


lemma batch_dictionary_batch_of:
  "(c, b) \<in> set (batch_dictionary (group_loop gmv_init (enumerate 0 ds))) \<longleftrightarrow>
     c \<in> cls ` set ds \<and> b = batch_of ds c"
  by (simp add: batch_dictionary_iff batch_of_def)

lemma set_fetched_pairs:
  "set (fetched_pairs fetch bs) = (\<Union>(c, b) \<in> set bs. set (yielded (fetch c b)))"
  by (auto simp: fetched_pairs_def)

lemma get_many_vectors_nth:
  assumes r: "get_many_vectors fetch ds = Inr vs" and p: "p < length ds"
  shows "vs ! p =
     last_write (uuid_indices (group_loop gmv_init (enumerate 0 ds))) p
       (fetched_pairs fetch (batch_dictionary (group_loop gmv_init (enumerate 0 ds)))) None"
proof -
  let ?s = "group_loop gmv_init (enumerate 0 ds)"
  let ?ov = "replicate (length ds) None"
  have n: "nat (index ?s + 1) = length ds"
    by (simp add: index_group_loop)
  have l: "fetch_loop fetch (uuid_indices ?s) ?ov (batch_dictionary ?s) = Inr vs"
    using r by (simp add: get_many_vectors_def Let_def n)
  have "in_range (uuid_indices ?s) (length ?ov)"
    using uuid_indices_in_range [of ds] by simp
  from fetch_loop_nth [OF this l] p show ?thesis
    by simp
qed

lemma slot_key_iff:
  assumes p: "p < length ds"
    and last: "\<forall>m. p < m \<and> m < length ds \<longrightarrow> uuid (ds ! m) \<noteq> uuid (ds ! p)"
  shows "uuid_indices (group_loop gmv_init (enumerate 0 ds)) u = Some (int p) \<longleftrightarrow> u = uuid (ds ! p)"
proof
  assume "uuid_indices (group_loop gmv_init (enumerate 0 ds)) u = Some (int p)"
  from uuid_indices_SomeD [OF this] show "u = uuid (ds ! p)"
    by auto
next
  assume "u = uuid (ds ! p)"
  with uuid_indices_last [OF p last] show "uuid_indices (group_loop gmv_init (enumerate 0 ds)) u = Some (int p)"
    by simp
qed

subsection \<open>Concrete runs\<close>

lemma example_run:
  "get_many_vectors reversing_fetch example_descriptors = Inr [Some [1, 2], Some [3, 4], None]"
  by code_simp

lemma duplicates_run:
  "get_many_vectors reversing_fetch example_duplicates = Inr [None, Some [3, 4], Some [1, 2]]"
  by code_simp

subsection \<open>The length of the result\<close>

text \<open>
  C5. Whenever \<open>get_many_vectors\<close> returns a list, the list is as long as the input, whatever
  the batch fetches yield; and on the empty input it returns the empty list.
\<close>

theorem get_many_vectors_length:
  "(get_many_vectors fetch descriptors = Inr vectors \<longrightarrow> length vectors = length descriptors)
   \<and> get_many_vectors fetch [] = Inr []"
proof
  show "get_many_vectors fetch descriptors = Inr vectors \<longrightarrow> length vectors = length descriptors"
  proof
    assume "get_many_vectors fetch descriptors = Inr vectors"
    then have "length vectors = nat (index (group_loop gmv_init (enumerate 0 descriptors)) + 1)"
      unfolding get_many_vectors_def Let_def by (auto dest: fetch_loop_length)
    then show "length vectors = length descriptors"
      by (simp add: index_group_loop)
  qed
  show "get_many_vectors fetch [] = Inr []"
    by (simp add: get_many_vectors_def gmv_init_def)
qed

theorem get_many_vectors_length_witness:
  "get_many_vectors reversing_fetch example_descriptors = Inr [Some [1, 2], Some [3, 4], None]
   \<and> length [Some [1, 2], Some [3, 4], None :: int list option] = length example_descriptors
   \<and> get_many_vectors reversing_fetch ([] :: (string, string, int) descriptor_element list) = Inr []"
  using get_many_vectors_length [of reversing_fetch example_descriptors "[Some [1, 2], Some [3, 4], None]"]
    example_run
  by (simp add: example_descriptors_def)

subsection \<open>The order of the result\<close>

text \<open>
  C2. Let the uuids of the input be pairwise distinct, and let every class's batch fetch
  return without a fault, yield only uuids of its own batch, and yield every uuid at most
  once. Then \<open>get_many_vectors\<close> returns a list as long as the input, and its entry at
  position \<open>i\<close> is the vector that the fetch of the class of the element at \<open>i\<close> yields
  for the uuid of that element (also when that vector is \<open>None\<close>); it is \<open>None\<close> when
  that fetch yields no pair for the uuid. The statement speaks of the set of the pairs
  yielded only, so the order in which a fetch yields them does not matter.
\<close>

theorem get_many_vectors_order:
  assumes dist: "distinct (map uuid ds)"
    and no_fault: "\<forall>c \<in> cls ` set ds. raised (fetch c (batch_of ds c)) = None"
    and own_keys: "\<forall>c \<in> cls ` set ds.
        fst ` set (yielded (fetch c (batch_of ds c))) \<subseteq> uuid ` set (batch_of ds c)"
    and once: "\<forall>c \<in> cls ` set ds. distinct (map fst (yielded (fetch c (batch_of ds c))))"
  shows "\<exists>vs. get_many_vectors fetch ds = Inr vs \<and> length vs = length ds \<and>
     (\<forall>i<length ds.
        (\<forall>vec. (uuid (ds ! i), vec) \<in> set (yielded (fetch (cls (ds ! i)) (batch_of ds (cls (ds ! i)))))
            \<longrightarrow> vs ! i = vec) \<and>
        (uuid (ds ! i) \<notin> fst ` set (yielded (fetch (cls (ds ! i)) (batch_of ds (cls (ds ! i)))))
            \<longrightarrow> vs ! i = None))"
proof -
  let ?s = "group_loop gmv_init (enumerate 0 ds)"
  let ?idx = "uuid_indices ?s"
  let ?bd = "batch_dictionary ?s"
  let ?fp = "fetched_pairs fetch ?bd"
  let ?out = "\<lambda>c. yielded (fetch c (batch_of ds c))"
  have n: "nat (index ?s + 1) = length ds"
    by (simp add: index_group_loop)
  have range: "in_range ?idx (length (replicate (length ds) (None :: 'c list option)))"
    using uuid_indices_in_range [of ds] by simp
  have sub: "set (batch_of ds c) \<subseteq> set ds" for c
    by (auto simp: batch_of_def)
  have good: "\<forall>(c, b) \<in> set ?bd. raised (fetch c b) = None \<and> fst ` set (yielded (fetch c b)) \<subseteq> dom ?idx"
  proof (clarify, intro conjI)
    fix c b
    assume "(c, b) \<in> set ?bd"
    then have c: "c \<in> cls ` set ds" and b: "b = batch_of ds c"
      by (simp_all add: batch_dictionary_batch_of)
    show "raised (fetch c b) = None"
      using bspec [OF no_fault c] b by simp
    have "fst ` set (yielded (fetch c b)) \<subseteq> uuid ` set (batch_of ds c)"
      using bspec [OF own_keys c] b by simp
    also have "\<dots> \<subseteq> uuid ` set ds"
      using sub by blast
    finally show "fst ` set (yielded (fetch c b)) \<subseteq> dom ?idx"
      by (simp add: uuid_indices_dom)
  qed
  from fetch_loop_total [OF range good] obtain vs where
    l: "fetch_loop fetch ?idx (replicate (length ds) None) ?bd = Inr vs"
    by blast
  then have r: "get_many_vectors fetch ds = Inr vs"
    by (simp add: get_many_vectors_def Let_def n)
  have len: "length vs = length ds"
    using fetch_loop_length [OF l] by simp
  have slots: "(\<forall>vec. (uuid (ds ! i), vec) \<in> set (?out (cls (ds ! i))) \<longrightarrow> vs ! i = vec) \<and>
        (uuid (ds ! i) \<notin> fst ` set (?out (cls (ds ! i))) \<longrightarrow> vs ! i = None)"
    if i: "i < length ds" for i
  proof -
    let ?d = "ds ! i"
    have d_in: "?d \<in> set ds"
      using i by simp
    have last: "\<forall>m. i < m \<and> m < length ds \<longrightarrow> uuid (ds ! m) \<noteq> uuid ?d"
    proof (intro allI impI)
      fix m
      assume m: "i < m \<and> m < length ds"
      have "m < length (map uuid ds)" "i < length (map uuid ds)" "m \<noteq> i"
        using m i by simp_all
      with dist have "map uuid ds ! m \<noteq> map uuid ds ! i"
        by (simp only: nth_eq_iff_index_eq not_False_eq_True)
      with m i show "uuid (ds ! m) \<noteq> uuid ?d"
        by simp
    qed
    have v: "vs ! i = (case map_of (rev ?fp) (uuid ?d) of None \<Rightarrow> None | Some vec \<Rightarrow> vec)"
      using get_many_vectors_nth [OF r i] slot_key_iff [OF i last]
      by (simp add: last_write_map_of)
    have inj: "inj_on uuid (set ds)"
      using dist by (simp add: distinct_map)
    have own: "(uuid ?d, vec) \<in> set ?fp \<longleftrightarrow> (uuid ?d, vec) \<in> set (?out (cls ?d))" for vec
    proof
      assume "(uuid ?d, vec) \<in> set ?fp"
      then obtain c b where cb: "(c, b) \<in> set ?bd" and y: "(uuid ?d, vec) \<in> set (yielded (fetch c b))"
        by (auto simp: set_fetched_pairs)
      from cb have c: "c \<in> cls ` set ds" and b: "b = batch_of ds c"
        by (simp_all add: batch_dictionary_batch_of)
      from y have "uuid ?d \<in> fst ` set (yielded (fetch c b))"
        by force
      with bspec [OF own_keys c] b have "uuid ?d \<in> uuid ` set (batch_of ds c)"
        by auto
      then obtain d' where d': "d' \<in> set ds" "cls d' = c" "uuid d' = uuid ?d"
        by (auto simp: batch_of_def)
      with inj d_in have "d' = ?d"
        by (auto dest: inj_onD)
      with d' have "c = cls ?d" by simp
      with y b show "(uuid ?d, vec) \<in> set (?out (cls ?d))" by simp
    next
      assume y: "(uuid ?d, vec) \<in> set (?out (cls ?d))"
      have "(cls ?d, batch_of ds (cls ?d)) \<in> set ?bd"
        using d_in by (simp add: batch_dictionary_batch_of)
      with y show "(uuid ?d, vec) \<in> set ?fp"
        by (auto simp: set_fetched_pairs)
    qed
    have "cls ?d \<in> cls ` set ds"
      using d_in by (rule imageI)
    then have once_d: "distinct (map fst (?out (cls ?d)))"
      using once by (rule_tac bspec)
    show ?thesis
    proof (intro conjI allI impI)
      fix vec
      assume y: "(uuid ?d, vec) \<in> set (?out (cls ?d))"
      then have "(uuid ?d, vec) \<in> set (rev ?fp)"
        using own by simp
      then have "uuid ?d \<in> fst ` set (rev ?fp)"
        by force
      then obtain vec' where m: "map_of (rev ?fp) (uuid ?d) = Some vec'"
        by (cases "map_of (rev ?fp) (uuid ?d)") (simp_all add: map_of_eq_None_iff)
      then have "(uuid ?d, vec') \<in> set ?fp"
        by (auto dest: map_of_SomeD)
      then have "(uuid ?d, vec') \<in> set (?out (cls ?d))"
        using own by simp
      with y once_d have "vec' = vec"
        by (rule_tac eq_key_imp_eq_value)
      with v m show "vs ! i = vec" by simp
    next
      assume "uuid ?d \<notin> fst ` set (?out (cls ?d))"
      then have "uuid ?d \<notin> fst ` set (rev ?fp)"
        using own by force
      then have "map_of (rev ?fp) (uuid ?d) = None"
        by (simp add: map_of_eq_None_iff)
      with v show "vs ! i = None" by simp
    qed
  qed
  from r len slots show ?thesis
    by blast
qed


theorem get_many_vectors_order_witness:
  "distinct (map uuid example_descriptors)
   \<and> (\<exists>vs. get_many_vectors reversing_fetch example_descriptors = Inr vs \<and> length vs = 3
          \<and> vs ! 0 = Some [1, 2] \<and> vs ! 1 = Some [3, 4] \<and> vs ! 2 = None)"
proof -
  let ?ds = "example_descriptors"
  let ?f = "reversing_fetch :: string \<Rightarrow> (string, string, int) descriptor_element list \<Rightarrow> (string, int) fetch_result"
  have dist: "distinct (map uuid ?ds)"
    by (simp add: example_descriptors_def uuid_def)
  have no_fault: "\<forall>c \<in> cls ` set ?ds. raised (?f c (batch_of ?ds c)) = None"
    by (simp add: reversing_fetch_def)
  have own_keys: "\<forall>c \<in> cls ` set ?ds.
      fst ` set (yielded (?f c (batch_of ?ds c))) \<subseteq> uuid ` set (batch_of ?ds c)"
    by (auto simp: reversing_fetch_def)
  have once: "\<forall>c \<in> cls ` set ?ds. distinct (map fst (yielded (?f c (batch_of ?ds c))))"
    by (simp add: reversing_fetch_def example_descriptors_def batch_of_def uuid_def rev_map [symmetric])
  from get_many_vectors_order [where ds = "?ds" and fetch = "?f", OF dist no_fault own_keys once]
  obtain vs where
    r: "get_many_vectors ?f ?ds = Inr vs" and len: "length vs = length ?ds"
    and slots: "\<forall>i<length ?ds.
        (\<forall>vec. (uuid (?ds ! i), vec) \<in> set (yielded (?f (cls (?ds ! i)) (batch_of ?ds (cls (?ds ! i)))))
            \<longrightarrow> vs ! i = vec) \<and>
        (uuid (?ds ! i) \<notin> fst ` set (yielded (?f (cls (?ds ! i)) (batch_of ?ds (cls (?ds ! i)))))
            \<longrightarrow> vs ! i = None)"
    by blast
  have l3: "length ?ds = 3"
    by (simp add: example_descriptors_def)
  have y0: "(uuid (?ds ! 0), Some [1, 2]) \<in> set (yielded (?f (cls (?ds ! 0)) (batch_of ?ds (cls (?ds ! 0)))))"
    by (simp add: reversing_fetch_def example_descriptors_def batch_of_def uuid_def)
  have y1: "(uuid (?ds ! 1), Some [3, 4]) \<in> set (yielded (?f (cls (?ds ! 1)) (batch_of ?ds (cls (?ds ! 1)))))"
    by (simp add: reversing_fetch_def example_descriptors_def batch_of_def uuid_def)
  have y2: "(uuid (?ds ! 2), None) \<in> set (yielded (?f (cls (?ds ! 2)) (batch_of ?ds (cls (?ds ! 2)))))"
    by (simp add: reversing_fetch_def example_descriptors_def batch_of_def uuid_def)
  have slot: "vs ! i = vec"
    if "i < length ?ds"
      and "(uuid (?ds ! i), vec) \<in> set (yielded (?f (cls (?ds ! i)) (batch_of ?ds (cls (?ds ! i)))))"
    for i vec
    using slots that by blast
  have "vs ! 0 = Some [1, 2]"
    using slot [OF _ y0] l3 by simp
  moreover have "vs ! 1 = Some [3, 4]"
    using slot [OF _ y1] l3 by simp
  moreover have "vs ! 2 = None"
    using slot [OF _ y2] l3 by simp
  ultimately show ?thesis
    using dist r len l3 by simp
qed

subsection \<open>A pair for a uuid that was not asked for\<close>

text \<open>
  C3, as the specification states it, fails: a pair whose uuid is not among the uuids of
  the input is not dropped. \<open>stray_fetch\<close> yields such a pair, \<open>(''zz'', Some [9])\<close>, and
  the call ends with \<open>KeyError\<close> instead of a list.
\<close>

theorem stray_key_is_ignored_counterexample:
  "(''zz'', Some [9]) \<in> set (yielded (stray_fetch ''Y'' (batch_of example_descriptors ''Y'')))
   \<and> ''zz'' \<notin> uuid ` set example_descriptors
   \<and> get_many_vectors stray_fetch example_descriptors = Inl KeyError"
proof (intro conjI)
  show "(''zz'', Some [9]) \<in> set (yielded (stray_fetch ''Y'' (batch_of example_descriptors ''Y'')))"
    by (simp add: stray_fetch_def)
  show "''zz'' \<notin> uuid ` set example_descriptors"
    by (simp add: example_descriptors_def uuid_def)
  show "get_many_vectors stray_fetch example_descriptors = Inl KeyError"
    by code_simp
qed

text \<open>
  C3, amended. When the batch fetch of a class of the input yields a pair whose uuid is
  not among the uuids of the input, \<open>get_many_vectors\<close> returns no list: it raises. When
  no batch fetch raises a fault of its own, the exception is \<open>KeyError\<close>.
\<close>

theorem stray_key_raises:
  assumes c: "c \<in> cls ` set ds"
    and y: "(u, vec) \<in> set (yielded (fetch c (batch_of ds c)))"
    and stray: "u \<notin> uuid ` set ds"
  shows "(\<exists>e. get_many_vectors fetch ds = Inl e)
    \<and> ((\<forall>c' \<in> cls ` set ds. raised (fetch c' (batch_of ds c')) = None)
        \<longrightarrow> get_many_vectors fetch ds = Inl KeyError)"
proof -
  let ?s = "group_loop gmv_init (enumerate 0 ds)"
  let ?idx = "uuid_indices ?s"
  let ?bd = "batch_dictionary ?s"
  have n: "nat (index ?s + 1) = length ds"
    by (simp add: index_group_loop)
  have g: "get_many_vectors fetch ds = fetch_loop fetch ?idx (replicate (length ds) None) ?bd"
    by (simp add: get_many_vectors_def Let_def n)
  have in_bd: "(c, batch_of ds c) \<in> set ?bd"
    using c by (simp add: batch_dictionary_batch_of)
  have no_list: "get_many_vectors fetch ds \<noteq> Inr vs" for vs
  proof
    assume "get_many_vectors fetch ds = Inr vs"
    then have "fetch_loop fetch ?idx (replicate (length ds) None) ?bd = Inr vs"
      by (simp add: g)
    from fetch_loop_Inr_D [OF this in_bd] have "fst ` set (yielded (fetch c (batch_of ds c))) \<subseteq> dom ?idx"
      by simp
    with y have "u \<in> dom ?idx"
      by force
    with stray show False
      by (simp add: uuid_indices_dom)
  qed
  then obtain e where e: "get_many_vectors fetch ds = Inl e"
    by (cases "get_many_vectors fetch ds") auto
  have "e = KeyError" if nf: "\<forall>c' \<in> cls ` set ds. raised (fetch c' (batch_of ds c')) = None"
  proof -
    have range: "in_range ?idx (length (replicate (length ds) (None :: 'c list option)))"
      using uuid_indices_in_range [of ds] by simp
    have l: "fetch_loop fetch ?idx (replicate (length ds) None) ?bd = Inl e"
      using e by (simp add: g)
    from fetch_loop_error [OF range l] consider "e = KeyError"
      | c' b x where "(c', b) \<in> set ?bd" "raised (fetch c' b) = Some x"
      by blast
    then show ?thesis
    proof cases
      case 1
      then show ?thesis .
    next
      case 2
      from 2(1) have "c' \<in> cls ` set ds" "b = batch_of ds c'"
        by (simp_all add: batch_dictionary_batch_of)
      with bspec [OF nf this(1)] 2(2) show ?thesis by simp
    qed
  qed
  with e show ?thesis by blast
qed

theorem stray_key_raises_witness:
  "''Y'' \<in> cls ` set example_descriptors
   \<and> (''zz'', Some [9]) \<in> set (yielded (stray_fetch ''Y'' (batch_of example_descriptors ''Y'')))
   \<and> ''zz'' \<notin> uuid ` set example_descriptors
   \<and> get_many_vectors stray_fetch example_descriptors = Inl KeyError"
proof -
  have c: "''Y'' \<in> cls ` set example_descriptors"
    by (simp add: example_descriptors_def)
  have y: "(''zz'', Some [9]) \<in> set (yielded (stray_fetch ''Y'' (batch_of example_descriptors ''Y'')))"
    by (simp add: stray_fetch_def)
  have stray: "''zz'' \<notin> uuid ` set example_descriptors"
    by (simp add: example_descriptors_def uuid_def)
  have nf: "\<forall>c' \<in> cls ` set example_descriptors.
      raised (stray_fetch c' (batch_of example_descriptors c')) = None"
    by (simp add: stray_fetch_def)
  from stray_key_raises [where ds = example_descriptors and fetch = stray_fetch, OF c y stray] nf
  have "get_many_vectors stray_fetch example_descriptors = Inl KeyError"
    by blast
  with c y stray show ?thesis by simp
qed

subsection \<open>A uuid that occurs more than once\<close>

text \<open>
  C4. Let \<open>get_many_vectors\<close> return the list \<open>vs\<close>, and let \<open>j\<close> be the last position
  of the input that holds its uuid. Then \<open>uuid_indices\<close> maps that uuid to \<open>j\<close>; the slot
  of every earlier position with the same uuid is \<open>None\<close>; and the slot \<open>j\<close> holds the
  vector of the last pair that the batch fetches yield for that uuid (\<open>None\<close> when they
  yield no such pair): all the pairs for the uuid are written to slot \<open>j\<close>.
\<close>

theorem duplicate_uuid_last_index_wins:
  assumes r: "get_many_vectors fetch ds = Inr vs"
    and j: "j < length ds"
    and last: "\<forall>m. j < m \<and> m < length ds \<longrightarrow> uuid (ds ! m) \<noteq> uuid (ds ! j)"
  shows "uuid_indices (group_loop gmv_init (enumerate 0 ds)) (uuid (ds ! j)) = Some (int j)
    \<and> (\<forall>i<j. uuid (ds ! i) = uuid (ds ! j) \<longrightarrow> vs ! i = None)
    \<and> vs ! j =
       (case map_of (rev (fetched_pairs fetch (batch_dictionary (group_loop gmv_init (enumerate 0 ds)))))
               (uuid (ds ! j)) of
          None \<Rightarrow> None
        | Some vec \<Rightarrow> vec)"
proof (intro conjI allI impI)
  let ?idx = "uuid_indices (group_loop gmv_init (enumerate 0 ds))"
  show "?idx (uuid (ds ! j)) = Some (int j)"
    using j last by (rule uuid_indices_last)
  show "vs ! j =
       (case map_of (rev (fetched_pairs fetch (batch_dictionary (group_loop gmv_init (enumerate 0 ds)))))
               (uuid (ds ! j)) of
          None \<Rightarrow> None
        | Some vec \<Rightarrow> vec)"
    using get_many_vectors_nth [OF r j] slot_key_iff [OF j last]
    by (simp add: last_write_map_of)
  fix i
  assume i: "i < j" and same: "uuid (ds ! i) = uuid (ds ! j)"
  have "?idx u \<noteq> Some (int i)" for u
  proof
    assume "?idx u = Some (int i)"
    from uuid_indices_SomeD [OF this]
    have "uuid (ds ! i) = u" and "\<forall>m. i < m \<and> m < length ds \<longrightarrow> uuid (ds ! m) \<noteq> u"
      by auto
    with i j same show False by auto
  qed
  then have "\<forall>u. ?idx u \<noteq> Some (int i)"
    by simp
  moreover have "i < length ds"
    using i j by simp
  ultimately show "vs ! i = None"
    using get_many_vectors_nth [OF r, of i] by (simp add: last_write_unwritten)
qed


theorem duplicate_uuid_last_index_wins_witness:
  "get_many_vectors reversing_fetch example_duplicates = Inr [None, Some [3, 4], Some [1, 2]]
   \<and> uuid (example_duplicates ! 0) = uuid (example_duplicates ! 2)
   \<and> uuid_indices (group_loop gmv_init (enumerate 0 example_duplicates)) ''a'' = Some 2
   \<and> [None, Some [3, 4], Some [1, 2 :: int]] ! 0 = None
   \<and> map_of (rev (fetched_pairs reversing_fetch
          (batch_dictionary (group_loop gmv_init (enumerate 0 example_duplicates))))) ''a''
       = Some (Some [1, 2])"
proof -
  have j: "2 < length example_duplicates"
    by (simp add: example_duplicates_def)
  have last: "\<forall>m. 2 < m \<and> m < length example_duplicates \<longrightarrow>
      uuid (example_duplicates ! m) \<noteq> uuid (example_duplicates ! 2)"
    by (auto simp: example_duplicates_def)
  have u: "uuid (example_duplicates ! 2) = ''a''" "uuid (example_duplicates ! 0) = ''a''"
    by (simp_all add: example_duplicates_def uuid_def)
  have f: "map_of (rev (fetched_pairs reversing_fetch
          (batch_dictionary (group_loop gmv_init (enumerate 0 example_duplicates))))) ''a''
       = Some (Some [1, 2])"
    by code_simp
  from duplicate_uuid_last_index_wins [OF duplicates_run j last] u f duplicates_run
  show ?thesis by simp
qed

section \<open>Properties of equality, hash and serialization\<close>

lemma array_equal_vectors:
  "array_equal eq v w = vectors_elementwise_equal eq v w"
proof (cases v)
  case None
  then show ?thesis
    by (cases w) (simp_all add: array_equal_def vectors_elementwise_equal_def asarray_def shape_def)
next
  case (Some xs)
  show ?thesis
  proof (cases w)
    case None
    with Some show ?thesis
      by (simp add: array_equal_def vectors_elementwise_equal_def asarray_def shape_def)
  next
    case (Some ys)
    have "list_all (\<lambda>b. b) (map (\<lambda>(x, y). eq x y) (zip xs ys)) \<longleftrightarrow> (\<forall>(x, y) \<in> set (zip xs ys). eq x y)"
      by (auto simp: list_all_iff)
    with Some \<open>v = Some xs\<close> show ?thesis
      by (auto simp: array_equal_def vectors_elementwise_equal_def asarray_def shape_def
          list_all2_iff)
  qed
qed

text \<open>
  C1. \<open>a == b\<close> for two descriptor elements is the elementwise equality of their vectors:
  it does not change when the class, the type label and the uuid of either side change;
  two absent vectors are equal, an absent and a present vector are not, two present
  vectors are equal when they have the same length and equal entries; and a descriptor
  element is never equal to a value that is not a descriptor element.
\<close>

theorem descriptor_eq_vectors_only:
  "descriptor_eq eq a (Descriptor b) = vectors_elementwise_equal eq (vector a) (vector b)
   \<and> descriptor_eq eq (a\<lparr>cls := c, priv_type_label := t, priv_uuid := u\<rparr>)
        (Descriptor (b\<lparr>cls := c', priv_type_label := t', priv_uuid := u'\<rparr>))
      = descriptor_eq eq a (Descriptor b)
   \<and> descriptor_eq eq (a\<lparr>vector := None\<rparr>) (Descriptor (b\<lparr>vector := None\<rparr>))
   \<and> \<not> descriptor_eq eq (a\<lparr>vector := None\<rparr>) (Descriptor (b\<lparr>vector := Some ys\<rparr>))
   \<and> \<not> descriptor_eq eq (a\<lparr>vector := Some xs\<rparr>) (Descriptor (b\<lparr>vector := None\<rparr>))
   \<and> descriptor_eq eq (a\<lparr>vector := Some xs\<rparr>) (Descriptor (b\<lparr>vector := Some ys\<rparr>))
      = list_all2 eq xs ys
   \<and> \<not> descriptor_eq eq a (NotDescriptor x)"
  by (simp add: descriptor_eq_def array_equal_vectors vectors_elementwise_equal_def)

theorem descriptor_eq_vectors_only_witness:
  "descriptor_eq (=) (example_descriptors ! 0)
      (Descriptor ((example_descriptors ! 2)\<lparr>vector := Some [1, 2]\<rparr>))
   \<and> uuid (example_descriptors ! 0) \<noteq> uuid ((example_descriptors ! 2)\<lparr>vector := Some [1, 2]\<rparr>)
   \<and> \<not> descriptor_eq (=) (example_descriptors ! 0) (Descriptor (example_descriptors ! 2))
   \<and> \<not> descriptor_eq (=) (example_descriptors ! 0) (NotDescriptor ''a'')"
  using descriptor_eq_vectors_only [of "(=)" "example_descriptors ! 0"
      "(example_descriptors ! 2)\<lparr>vector := Some [1, 2]\<rparr>"]
    descriptor_eq_vectors_only [of "(=)" "example_descriptors ! 0" "example_descriptors ! 2"]
  by (simp add: example_descriptors_def vectors_elementwise_equal_def uuid_def)

text \<open>
  C6. The hash of a descriptor element is the hash of its uuid. Two elements with the
  same uuid have the same hash, whatever their other attributes; and the same hash does not
  make two elements equal: every element has a partner with its uuid, hence its hash, that
  is not equal to it.
\<close>

theorem descriptor_hash_uuid_only:
  "descriptor_hash hash a = hash (uuid a)
   \<and> (uuid a = uuid b \<longrightarrow> descriptor_hash hash a = descriptor_hash hash b)
   \<and> (\<exists>b'. uuid b' = uuid a \<and> descriptor_hash hash b' = descriptor_hash hash a
          \<and> \<not> descriptor_eq eq a (Descriptor b'))"
proof (intro conjI impI)
  show "descriptor_hash hash a = hash (uuid a)"
    by (simp add: descriptor_hash_def)
  show "descriptor_hash hash a = descriptor_hash hash b" if "uuid a = uuid b"
    using that by (simp add: descriptor_hash_def)
  let ?b = "a\<lparr>vector := (case vector a of None \<Rightarrow> Some [] | Some xs \<Rightarrow> None)\<rparr>"
  have "uuid ?b = uuid a" "descriptor_hash hash ?b = descriptor_hash hash a"
    by (simp_all add: uuid_def descriptor_hash_def)
  moreover have "\<not> descriptor_eq eq a (Descriptor ?b)"
    by (simp add: descriptor_eq_def array_equal_vectors vectors_elementwise_equal_def
        split: option.splits)
  ultimately show "\<exists>b'. uuid b' = uuid a \<and> descriptor_hash hash b' = descriptor_hash hash a
          \<and> \<not> descriptor_eq eq a (Descriptor b')"
    by blast
qed

theorem descriptor_hash_uuid_only_witness:
  "uuid (example_duplicates ! 0) = uuid (example_duplicates ! 2)
   \<and> descriptor_hash (\<lambda>s. int (length s)) (example_duplicates ! 0)
       = descriptor_hash (\<lambda>s. int (length s)) (example_duplicates ! 2)
   \<and> \<not> descriptor_eq (=) (example_duplicates ! 0) (Descriptor (example_duplicates ! 2))"
proof -
  have u: "uuid (example_duplicates ! 0) = uuid (example_duplicates ! 2)"
    by (simp add: example_duplicates_def uuid_def)
  have n: "\<not> descriptor_eq (=) (example_duplicates ! 0) (Descriptor (example_duplicates ! 2))"
    by (simp add: example_duplicates_def descriptor_eq_def array_equal_def asarray_def shape_def)
  from descriptor_hash_uuid_only [of "\<lambda>s. int (length s)" "example_duplicates ! 0"
      "example_duplicates ! 2" "(=)"] u
  have "descriptor_hash (\<lambda>s. int (length s)) (example_duplicates ! 0)
       = descriptor_hash (\<lambda>s. int (length s)) (example_duplicates ! 2)"
    by blast
  with u n show ?thesis by simp
qed

text \<open>
  C7. \<open>__setstate__\<close>, applied to any element with the dictionary of \<open>e.__getstate__()\<close>,
  raises nothing and leaves an element with the type label and the uuid of \<open>e\<close>. The
  dictionary has the two keys \<open>_type_label\<close> and \<open>_uuid\<close> and no other, they hold the type
  label and the uuid, and the dictionary does not depend on the vector.
\<close>

theorem setstate_getstate:
  "setstate e0 (getstate e) = (e0\<lparr>priv_type_label := priv_type_label e, priv_uuid := priv_uuid e\<rparr>, None)
   \<and> type_label (fst (setstate e0 (getstate e))) = type_label e
   \<and> uuid (fst (setstate e0 (getstate e))) = uuid e
   \<and> dom (getstate e) = {''_type_label'', ''_uuid''}
   \<and> getstate e ''_type_label'' = Some (type_label e)
   \<and> getstate e ''_uuid'' = Some (uuid e)
   \<and> getstate (e\<lparr>vector := v\<rparr>) = getstate e"
  by (auto simp: setstate_def getstate_def type_label_def uuid_def)

theorem setstate_getstate_witness:
  "setstate (example_descriptors ! 1) (getstate (example_descriptors ! 0)) =
     (\<lparr>cls = ''Y'', priv_type_label = ''gen'', priv_uuid = ''a'', vector = Some [3, 4]\<rparr>, None)
   \<and> dom (getstate (example_descriptors ! 0)) = {''_type_label'', ''_uuid''}"
  using setstate_getstate [of "example_descriptors ! 1" "example_descriptors ! 0"]
  by (simp add: example_descriptors_def)

section \<open>Properties of the configuration functions\<close>

lemma get_default_config_missing:
  "parent_default_config ''type_str'' = None \<or> parent_default_config ''uuid'' = None \<Longrightarrow>
     get_default_config parent_default_config = Inl KeyError"
  by (auto simp: get_default_config_def py_del_def Let_def split: option.splits)

lemma get_default_config_present:
  assumes "parent_default_config ''type_str'' = Some t"
    and "parent_default_config ''uuid'' = Some u"
  shows "get_default_config parent_default_config
      = Inr (parent_default_config |` (- {''type_str'', ''uuid''}))"
proof -
  have "parent_default_config(''type_str'' := None, ''uuid'' := None)
      = parent_default_config |` (- {''type_str'', ''uuid''})"
    by (auto simp: restrict_map_def fun_eq_iff)
  then show ?thesis
    using assms by (simp add: get_default_config_def py_del_def Let_def)
qed

text \<open>
  C9, as the specification states it, fails: it speaks of every subclass, and
  \<open>get_default_config\<close> deletes the two keys by name. For a constructor whose second
  parameter is named \<open>uid\<close>, the discovery gives a dictionary without the key \<open>uuid\<close>,
  and the call ends with \<open>KeyError\<close> instead of a dictionary.
\<close>

theorem get_default_config_every_subclass_counterexample:
  "[''type_str'' \<mapsto> 0, ''uid'' \<mapsto> 1, ''limit'' \<mapsto> (2::nat)] ''uuid'' = None
   \<and> get_default_config [''type_str'' \<mapsto> 0, ''uid'' \<mapsto> 1, ''limit'' \<mapsto> (2::nat)]
       = (Inl KeyError :: nat py_error + (string \<rightharpoonup> nat))"
  by (simp add: get_default_config_def py_del_def Let_def)

text \<open>
  C9, amended. When the dictionary of the generic discovery holds the two keys
  \<open>type_str\<close> and \<open>uuid\<close>, that is, when the constructor of the subclass has parameters
  of these names, \<open>get_default_config\<close> returns that dictionary without the two keys:
  neither occurs in the result, and every other entry is as the discovery gave it. When
  the dictionary lacks one of the two keys, \<open>get_default_config\<close> raises \<open>KeyError\<close>.
\<close>

theorem get_default_config_strips_identity:
  "(parent_default_config ''type_str'' \<noteq> None \<and> parent_default_config ''uuid'' \<noteq> None \<longrightarrow>
      get_default_config parent_default_config
        = Inr (parent_default_config |` (- {''type_str'', ''uuid''}))
      \<and> (\<forall>dc. get_default_config parent_default_config = Inr dc \<longrightarrow>
            ''type_str'' \<notin> dom dc \<and> ''uuid'' \<notin> dom dc
            \<and> (\<forall>k. k \<noteq> ''type_str'' \<and> k \<noteq> ''uuid'' \<longrightarrow> dc k = parent_default_config k)))
   \<and> (parent_default_config ''type_str'' = None \<or> parent_default_config ''uuid'' = None \<longrightarrow>
      get_default_config parent_default_config = Inl KeyError)"
proof (intro conjI impI)
  assume "parent_default_config ''type_str'' = None \<or> parent_default_config ''uuid'' = None"
  then show "get_default_config parent_default_config = Inl KeyError"
    by (rule get_default_config_missing)
next
  assume "parent_default_config ''type_str'' \<noteq> None \<and> parent_default_config ''uuid'' \<noteq> None"
  then obtain t u where "parent_default_config ''type_str'' = Some t"
    "parent_default_config ''uuid'' = Some u"
    by auto
  then have r: "get_default_config parent_default_config
      = Inr (parent_default_config |` (- {''type_str'', ''uuid''}))"
    by (rule get_default_config_present)
  then show "get_default_config parent_default_config
      = Inr (parent_default_config |` (- {''type_str'', ''uuid''}))" .
  from r show "\<forall>dc. get_default_config parent_default_config = Inr dc \<longrightarrow>
            ''type_str'' \<notin> dom dc \<and> ''uuid'' \<notin> dom dc
            \<and> (\<forall>k. k \<noteq> ''type_str'' \<and> k \<noteq> ''uuid'' \<longrightarrow> dc k = parent_default_config k)"
    by (auto simp: restrict_map_def)
qed

theorem get_default_config_strips_identity_witness:
  "get_default_config [''type_str'' \<mapsto> 0, ''uuid'' \<mapsto> 1, ''limit'' \<mapsto> (2::nat)]
     = (Inr [''limit'' \<mapsto> 2] :: nat py_error + (string \<rightharpoonup> nat))
   \<and> get_default_config [''type_str'' \<mapsto> 0, ''limit'' \<mapsto> (2::nat)]
     = (Inl KeyError :: nat py_error + (string \<rightharpoonup> nat))"
proof -
  let ?p = "[''type_str'' \<mapsto> 0, ''uuid'' \<mapsto> 1, ''limit'' \<mapsto> (2::nat)]"
  let ?q = "[''type_str'' \<mapsto> 0, ''limit'' \<mapsto> (2::nat)]"
  have p: "?p ''type_str'' \<noteq> None \<and> ?p ''uuid'' \<noteq> None"
    by simp
  have q: "?q ''type_str'' = None \<or> ?q ''uuid'' = None"
    by simp
  from get_default_config_strips_identity [of ?p] p
  have "get_default_config ?p = (Inr (?p |` (- {''type_str'', ''uuid''})) :: nat py_error + (string \<rightharpoonup> nat))"
    by blast
  moreover have "?p |` (- {''type_str'', ''uuid''}) = [''limit'' \<mapsto> 2]"
    by (auto simp: restrict_map_def fun_eq_iff)
  moreover from get_default_config_strips_identity [of ?q] q
  have "get_default_config ?q = (Inl KeyError :: nat py_error + (string \<rightharpoonup> nat))"
    by blast
  ultimately show ?thesis by simp
qed


text \<open>
  C10. Let \<open>merge_dict\<close>, called with an empty first dictionary, fill it with the entries
  of \<open>config_dict\<close> and leave \<open>config_dict\<close> as it is. Then the dictionary that
  \<open>from_config\<close> hands to the parent's \<open>from_config\<close> maps \<open>type_str\<close> and \<open>uuid\<close> to
  the two arguments, whatever \<open>config_dict\<close> holds under these keys, and agrees with
  \<open>config_dict\<close> on every other key; and \<open>config_dict\<close> is after the call what it was
  before.
\<close>

theorem from_config_identity_overrides:
  assumes "merge_dict Map.empty config_dict = (config_dict, config_dict)"
  shows "from_config merge_dict parent_from_config config_dict type_str uuid' merge_default
      = (parent_from_config (config_dict(''type_str'' \<mapsto> type_str, ''uuid'' \<mapsto> uuid')) merge_default,
         config_dict(''type_str'' \<mapsto> type_str, ''uuid'' \<mapsto> uuid'),
         config_dict)
    \<and> (\<forall>r c config_dict'.
          from_config merge_dict parent_from_config config_dict type_str uuid' merge_default
            = (r, c, config_dict') \<longrightarrow>
          r = parent_from_config c merge_default
          \<and> c ''type_str'' = Some type_str \<and> c ''uuid'' = Some uuid'
          \<and> (\<forall>k. k \<noteq> ''type_str'' \<and> k \<noteq> ''uuid'' \<longrightarrow> c k = config_dict k)
          \<and> config_dict' = config_dict)"
  using assms by (auto simp: from_config_def Let_def)

theorem from_config_identity_overrides_witness:
  "(case from_config (\<lambda>a b. (a ++ b, b)) (\<lambda>c merge_default. c ''uuid'')
          [''uuid'' \<mapsto> 7, ''limit'' \<mapsto> (2::nat)] 0 1 True of
      (r, c, config_dict') \<Rightarrow>
        r = Some 1 \<and> c ''type_str'' = Some 0 \<and> c ''uuid'' = Some 1 \<and> c ''limit'' = Some 2
        \<and> config_dict' ''uuid'' = Some 7 \<and> config_dict' ''type_str'' = None)"
proof -
  let ?m = "\<lambda>a b :: string \<rightharpoonup> nat. (a ++ b, b)"
  let ?cfg = "[''uuid'' \<mapsto> 7, ''limit'' \<mapsto> (2::nat)]"
  have m: "?m Map.empty ?cfg = (?cfg, ?cfg)"
    by simp
  note e = from_config_identity_overrides
    [of ?m ?cfg "\<lambda>c merge_default. c ''uuid''" 0 1 True, OF m, THEN conjunct1]
  show ?thesis
    by (subst e) simp
qed


section \<open>Properties of the in-memory descriptor set\<close>

lemma finite_dom_add_many:
  "finite (dom t) \<Longrightarrow> finite (dom (fold (\<lambda>d t. t(uuid d \<mapsto> d)) ds t))"
  by (induction ds arbitrary: t) simp_all

lemma finite_dom_remove_keys:
  "remove_keys t ks = Inr t' \<Longrightarrow> finite (dom t) \<Longrightarrow> finite (dom t')"
proof (induction ks arbitrary: t)
  case Nil
  then show ?case by simp
next
  case (Cons k ks)
  from Cons.prems(1) have "remove_keys (t(k := None)) ks = Inr t'"
    by (simp split: option.splits)
  moreover have "finite (dom (t(k := None)))"
    using Cons.prems(2) by simp
  ultimately show ?case
    by (rule Cons.IH)
qed

lemma cacheTable_synced:
  assumes rt: "\<And>p t. finite (dom t) \<Longrightarrow> deserialize (serialize p t) = Some t"
    and ne: "\<And>p t. finite (dom t) \<Longrightarrow> serialize p t \<noteq> []"
    and fin: "finite (dom (table s))"
    and c: "cacheStore s = Some c"
    and r: "cacheTable serialize s = (s', None)"
  shows "table s' = table s \<and>
    (\<exists>c'. cacheStore s' = Some c' \<and> \<not> isEmpty c' \<and> deserialize (getBytes c') = Some (table s'))"
proof (cases "writable c")
  case True
  with c r have s': "s' = s\<lparr>cacheStore := Some (c\<lparr>content := serialize (cachePickleProtocol s) (table s)\<rparr>)\<rparr>"
    by (simp add: cacheTable_def setBytes_def)
  show ?thesis
    by (simp add: s' isEmpty_def getBytes_def rt [OF fin] ne [OF fin])
next
  case False
  with c r show ?thesis
    by (simp add: cacheTable_def setBytes_def)
qed

lemma decode_nats_unary:
  "decode_nats acc (replicate n 1 @ 0 # rest) = (acc + n) # decode_nats 0 rest"
  by (induction n arbitrary: acc) simp_all

lemma decode_encode_nats:
  "decode_nats 0 (encode_nats ns) = ns"
  by (induction ns) (simp_all add: decode_nats_unary)

lemma unit_list_replicate:
  "replicate (length xs) () = (xs :: unit list)"
  by (induction xs) simp_all

lemma table_entries_entry:
  "table_entries (entry_nats (k, d) @ rest) = (k, d) # table_entries rest"
proof -
  have "\<lparr>cls = (), priv_type_label = priv_type_label d, priv_uuid = priv_uuid d,
          vector = (case (case vector d of None \<Rightarrow> 0 | Some xs \<Rightarrow> Suc (length xs)) of
                      0 \<Rightarrow> None | Suc n \<Rightarrow> Some (replicate n ()))\<rparr> = d"
    by (cases d) (simp add: unit_list_replicate split: option.splits)
  then show ?thesis
    by (simp add: entry_nats_def)
qed

lemma table_entries_concat:
  "table_entries (concat (map entry_nats es)) = es"
proof (induction es)
  case Nil
  then show ?case by simp
next
  case (Cons e es)
  obtain k d where e: "e = (k, d)" by (cases e)
  with Cons show ?case
    by (simp add: table_entries_entry)
qed

lemma map_of_graph:
  assumes "finite (dom t)"
  shows "map_of (map (\<lambda>k. (k, the (t k))) (sorted_list_of_set (dom t))) = (t :: nat \<rightharpoonup> 'd)"
proof
  fix x
  show "map_of (map (\<lambda>k. (k, the (t k))) (sorted_list_of_set (dom t))) x = t x"
    using assms by (cases "t x") (auto simp: map_of_map_restrict restrict_map_def domIff)
qed

lemma example_roundtrip:
  assumes "finite (dom t)"
  shows "example_deserialize (example_serialize p t) = Some t"
proof -
  let ?es = "map (\<lambda>k. (k, the (t k))) (sorted_list_of_set (dom t))"
  have "map (\<lambda>k. entry_nats (k, the (t k))) (sorted_list_of_set (dom t)) = map entry_nats ?es"
    by simp
  then have "example_deserialize (example_serialize p t) = Some (map_of ?es)"
    by (simp add: example_deserialize_def example_serialize_def decode_encode_nats
        table_entries_concat del: map_map)
  with map_of_graph [OF assms] show ?thesis
    by simp
qed

lemma example_serialize_nonempty:
  "example_serialize p t \<noteq> []"
  by (simp add: example_serialize_def)

lemma new_memory_descriptor_set_cache:
  "new_memory_descriptor_set deserialize (Some c) protocol = Inr s \<Longrightarrow> cacheStore s = Some c"
  by (auto simp: new_memory_descriptor_set_def split: if_splits option.splits)

text \<open>
  C8. Let the serializer, on every finite table, produce bytes that are not empty and that
  the deserializer turns back into the table. For a set with a cache store and a finite
  table, after each of the five mutating calls that returns (raises nothing), the table
  is finite again, the set still has its cache store, the store is not empty, and
  deserializing its bytes gives the table the set holds now.
\<close>

theorem cache_follows_table:
  assumes rt: "\<And>p t. finite (dom t) \<Longrightarrow> deserialize (serialize p t) = Some t"
    and ne: "\<And>p t. finite (dom t) \<Longrightarrow> serialize p t \<noteq> []"
    and fin: "finite (dom (table s))"
    and c: "cacheStore s = Some c"
    and r: "mutate serialize s m = (s', None)"
  shows "finite (dom (table s'))
    \<and> (\<exists>c'. cacheStore s' = Some c' \<and> \<not> isEmpty c' \<and> deserialize (getBytes c') = Some (table s'))"
proof -
  have step: "finite (dom (table s'))
    \<and> (\<exists>c'. cacheStore s' = Some c' \<and> \<not> isEmpty c' \<and> deserialize (getBytes c') = Some (table s'))"
    if w: "cacheTable serialize (s\<lparr>table := t\<rparr>) = (s', None)" and f: "finite (dom t)" for t
  proof -
    have f': "finite (dom (table (s\<lparr>table := t\<rparr>)))" and c': "cacheStore (s\<lparr>table := t\<rparr>) = Some c"
      using f c by simp_all
    from cacheTable_synced [OF rt ne f' c' w] f show ?thesis
      by auto
  qed
  show ?thesis
  proof (cases m)
    case (AddDescriptor d)
    with r have "cacheTable serialize (s\<lparr>table := (table s)(uuid d \<mapsto> d)\<rparr>) = (s', None)"
      by (simp add: addDescriptor_def)
    moreover have "finite (dom ((table s)(uuid d \<mapsto> d)))"
      using fin by simp
    ultimately show ?thesis by (rule step)
  next
    case (AddManyDescriptors ds)
    with r have "cacheTable serialize (s\<lparr>table := fold (\<lambda>d t. t(uuid d \<mapsto> d)) ds (table s)\<rparr>) = (s', None)"
      by (simp add: addManyDescriptors_def)
    moreover have "finite (dom (fold (\<lambda>d t. t(uuid d \<mapsto> d)) ds (table s)))"
      using fin by (rule finite_dom_add_many)
    ultimately show ?thesis by (rule step)
  next
    case (RemoveDescriptor k)
    with r have "cacheTable serialize (s\<lparr>table := (table s)(k := None)\<rparr>) = (s', None)"
      by (simp add: removeDescriptor_def split: option.splits)
    moreover have "finite (dom ((table s)(k := None)))"
      using fin by simp
    ultimately show ?thesis by (rule step)
  next
    case (RemoveManyDescriptors ks)
    with r obtain t where t: "remove_keys (table s) ks = Inr t"
      and w: "cacheTable serialize (s\<lparr>table := t\<rparr>) = (s', None)"
      by (auto simp: removeManyDescriptors_def split: sum.splits)
    from t fin have "finite (dom t)"
      by (rule finite_dom_remove_keys)
    with w show ?thesis by (rule step)
  next
    case Clear
    with r have "cacheTable serialize (s\<lparr>table := Map.empty\<rparr>) = (s', None)"
      by (simp add: clear_def)
    then show ?thesis by (rule step) simp
  qed
qed

theorem cache_follows_table_witness:
  "new_memory_descriptor_set example_deserialize (Some \<lparr>content = [], writable = True\<rparr>) ()
     = Inr \<lparr>table = Map.empty, cacheStore = Some \<lparr>content = [], writable = True\<rparr>,
            cachePickleProtocol = ()\<rparr>
   \<and> (case mutate example_serialize
           \<lparr>table = Map.empty, cacheStore = Some \<lparr>content = [], writable = True\<rparr>,
            cachePickleProtocol = ()\<rparr>
           (AddDescriptor \<lparr>cls = (), priv_type_label = 2, priv_uuid = 1, vector = Some [()]\<rparr>) of
      (s', e) \<Rightarrow> e = None
        \<and> table s' = [1 \<mapsto> \<lparr>cls = (), priv_type_label = 2, priv_uuid = 1, vector = Some [()]\<rparr>]
        \<and> cacheStore s' = Some \<lparr>content = [2, 1, 0, 1, 1, 0, 1, 0, 1, 1, 0], writable = True\<rparr>
        \<and> \<not> isEmpty \<lparr>content = [2, 1, 0, 1, 1, 0, 1, 0, 1, 1, 0], writable = True\<rparr>
        \<and> example_deserialize (getBytes \<lparr>content = [2, 1, 0, 1, 1, 0, 1, 0, 1, 1, 0], writable = True\<rparr>)
            = Some (table s'))"
proof -
  let ?c = "\<lparr>content = [], writable = True\<rparr>"
  let ?s = "\<lparr>table = Map.empty, cacheStore = Some ?c,
            cachePickleProtocol = ()\<rparr> :: (unit, nat, unit, unit) memory_descriptor_set"
  let ?d = "\<lparr>cls = (), priv_type_label = 2, priv_uuid = 1, vector = Some [()]\<rparr>
      :: (unit, nat, unit) descriptor_element"
  let ?c' = "\<lparr>content = [2, 1, 0, 1, 1, 0, 1, 0, 1, 1, 0], writable = True\<rparr>"
  let ?s' = "?s\<lparr>table := [1 \<mapsto> ?d], cacheStore := Some ?c'\<rparr>"
  have n: "new_memory_descriptor_set example_deserialize (Some ?c) () = Inr ?s"
    by (simp add: new_memory_descriptor_set_def isEmpty_def)
  have ser: "example_serialize () [1 \<mapsto> ?d] = [2, 1, 0, 1, 1, 0, 1, 0, 1, 1, 0]"
    by (simp add: example_serialize_def entry_nats_def numeral_2_eq_2)
  have r: "mutate example_serialize ?s (AddDescriptor ?d) = (?s', None)"
    by (simp add: addDescriptor_def cacheTable_def setBytes_def uuid_def ser del: One_nat_def)
  have fin: "finite (dom (table ?s))"
    by simp
  from cache_follows_table [of example_deserialize example_serialize, OF example_roundtrip
      example_serialize_nonempty fin new_memory_descriptor_set_cache [OF n] r]
  have "\<not> isEmpty ?c' \<and> example_deserialize (getBytes ?c') = Some (table ?s')"
    by simp
  then show ?thesis
    unfolding r n by simp
qed

end
